theory Spec2Isabelle
  imports Complex_Main
begin

section \<open>Module constants of chromadb\_cli.py\<close>

definition DEFAULT_DB_DIR :: string where
  "DEFAULT_DB_DIR = ''.chromadb''"

definition COLLECTION_NAME :: string where
  "COLLECTION_NAME = ''files''"

definition BINARY_EXTENSIONS :: "string set" where
  "BINARY_EXTENSIONS = {
     ''.png'', ''.jpg'', ''.jpeg'', ''.gif'', ''.bmp'', ''.ico'', ''.svg'', ''.webp'',
     ''.mp3'', ''.mp4'', ''.wav'', ''.avi'', ''.mov'', ''.mkv'', ''.flac'',
     ''.zip'', ''.tar'', ''.gz'', ''.bz2'', ''.xz'', ''.7z'', ''.rar'',
     ''.pdf'', ''.doc'', ''.docx'', ''.xls'', ''.xlsx'', ''.ppt'', ''.pptx'',
     ''.exe'', ''.dll'', ''.so'', ''.dylib'', ''.o'', ''.a'',
     ''.pyc'', ''.pyo'', ''.class'', ''.wasm'',
     ''.bin'', ''.dat'', ''.db'', ''.sqlite'',
     ''.ttf'', ''.otf'', ''.woff'', ''.woff2'', ''.eot''}"

definition SKIP_DIRS :: "string set" where
  "SKIP_DIRS = {
     ''.git'', ''.hg'', ''.svn'',
     ''__pycache__'', ''.mypy_cache'', ''.pytest_cache'',
     ''node_modules'', ''.tox'', ''.venv'', ''venv'', ''env'',
     DEFAULT_DB_DIR}"

definition MAX_FILE_SIZE :: nat where
  "MAX_FILE_SIZE = 1000000"

section \<open>Strings and POSIX paths\<close>

text \<open>
  A Python string is modelled by a \<^typ>\<open>string\<close> holding its bytes in UTF-8. A file name
  is the byte string the file system holds: \<open>os.walk\<close> decodes it with the
  \<open>surrogateescape\<close> handler, so a byte that is not part of well-formed UTF-8 becomes a
  lone surrogate of the Python string and is written back as the same byte. The
  functions below are the POSIX variants of \<open>os.path\<close>; the separator is \<open>/\<close> and the
  extension separator is \<open>.\<close>, both ASCII.
\<close>

text \<open>
  Well-formed UTF-8, as Python's strict codec takes it: \<open>utf8_seq_len\<close> is the length of
  the well-formed sequence at the head of a byte list, or 0 when there is none (overlong
  forms, encoded surrogates and values above \<open>U+10FFFF\<close> are refused).
\<close>

definition cont :: "nat \<Rightarrow> bool" where
  "cont b = (0x80 \<le> b \<and> b \<le> 0xBF)"

fun utf8_seq_len :: "nat list \<Rightarrow> nat" where
  "utf8_seq_len [] = 0"
| "utf8_seq_len (a # bs) =
     (if a < 0x80 then 1
      else if 0xC2 \<le> a \<and> a \<le> 0xDF then
        (case bs of b # _ \<Rightarrow> if cont b then 2 else 0 | _ \<Rightarrow> 0)
      else if 0xE0 \<le> a \<and> a \<le> 0xEF then
        (case bs of
           b # c # _ \<Rightarrow>
             if (if a = 0xE0 then 0xA0 \<le> b \<and> b \<le> 0xBF
                 else if a = 0xED then 0x80 \<le> b \<and> b \<le> 0x9F
                 else cont b) \<and> cont c
             then 3 else 0
         | _ \<Rightarrow> 0)
      else if 0xF0 \<le> a \<and> a \<le> 0xF4 then
        (case bs of
           b # c # e # _ \<Rightarrow>
             if (if a = 0xF0 then 0x90 \<le> b \<and> b \<le> 0xBF
                 else if a = 0xF4 then 0x80 \<le> b \<and> b \<le> 0x8F
                 else cont b) \<and> cont c \<and> cont e
             then 4 else 0
         | _ \<Rightarrow> 0)
      else 0)"

fun valid_utf8_bytes :: "nat list \<Rightarrow> bool" where
  "valid_utf8_bytes bs =
     (if bs = [] then True
      else if utf8_seq_len bs = 0 then False
      else valid_utf8_bytes (drop (utf8_seq_len bs) bs))"

declare valid_utf8_bytes.simps [simp del]

text \<open>
  \<open>valid_utf8 s\<close>: the Python string has no lone surrogate, that is \<open>s.encode()\<close> (UTF-8,
  strict) succeeds; it then returns the bytes of \<open>s\<close>.
\<close>

definition valid_utf8 :: "string \<Rightarrow> bool" where
  "valid_utf8 s = valid_utf8_bytes (map of_char s)"

text \<open>Every byte of the string is an ASCII character.\<close>

definition ascii :: "string \<Rightarrow> bool" where
  "ascii s = (\<forall>c \<in> set s. (of_char c :: nat) < 128)"

text \<open>
  \<open>str.lower\<close>. The ASCII capitals go to the small letters, and the Kelvin sign
  \<open>U+212A\<close> (bytes \<open>E2 84 AA\<close>, which always decode to it) goes to \<open>k\<close>. Every other
  code point outside ASCII is left as it is: \<open>str.lower\<close> sends it to a string that still
  holds a code point outside ASCII, so the result is the same whenever it is compared
  with an ASCII string, the only use the program makes of it.
\<close>

definition lower_char :: "char \<Rightarrow> char" where
  "lower_char c =
     (case map_of (zip ''ABCDEFGHIJKLMNOPQRSTUVWXYZ'' ''abcdefghijklmnopqrstuvwxyz'') c of
        None \<Rightarrow> c
      | Some d \<Rightarrow> d)"

fun lower :: "string \<Rightarrow> string" where
  "lower (a # b # c # rest) =
     (if a = CHR 0xE2 \<and> b = CHR 0x84 \<and> c = CHR 0xAA then CHR ''k'' # lower rest
      else lower_char a # lower (b # c # rest))"
| "lower (a # rest) = lower_char a # lower rest"
| "lower [] = []"

text \<open>\<open>os.path.join(a, b)\<close> for two arguments.\<close>

definition path_join :: "string \<Rightarrow> string \<Rightarrow> string" where
  "path_join a b =
     (if b \<noteq> [] \<and> hd b = CHR ''/'' then b
      else if a = [] \<or> last a = CHR ''/'' then a @ b
      else a @ ''/'' @ b)"

text \<open>
  \<open>os.path.splitext(p)[1]\<close>: the extension starts at the last dot of the last path
  component, unless that component has only dots before it (leading dots are not an
  extension separator).
\<close>

definition basename :: "string \<Rightarrow> string" where
  "basename p = rev (takeWhile (\<lambda>c. c \<noteq> CHR ''/'') (rev p))"

definition splitext_ext :: "string \<Rightarrow> string" where
  "splitext_ext p =
     (let b = basename p;
          upto_dot = dropWhile (\<lambda>c. c \<noteq> CHR ''.'') (rev b)
      in if list_ex (\<lambda>c. c \<noteq> CHR ''.'') upto_dot
         then CHR ''.'' # rev (takeWhile (\<lambda>c. c \<noteq> CHR ''.'') (rev b))
         else [])"

text \<open>\<open>str.split(sep)\<close> for a one-character separator.\<close>

fun split_sep :: "char \<Rightarrow> string \<Rightarrow> string list" where
  "split_sep s [] = [[]]"
| "split_sep s (c # cs) =
     (if c = s then [] # split_sep s cs
      else (case split_sep s cs of
              [] \<Rightarrow> [[c]]
            | w # ws \<Rightarrow> (c # w) # ws))"

text \<open>
  The component loop of \<open>os.path.normpath\<close> for an absolute path: empty components and
  \<open>.\<close> are dropped, \<open>..\<close> removes the component before it (and is dropped at the root).
  The accumulator holds the components kept so far, last one first.
\<close>

fun norm_comps :: "string list \<Rightarrow> string list \<Rightarrow> string list" where
  "norm_comps acc [] = rev acc"
| "norm_comps acc (c # cs) =
     (if c = [] \<or> c = ''.'' then norm_comps acc cs
      else if c = ''..'' then norm_comps (tl acc) cs
      else norm_comps (c # acc) cs)"

definition abs_comps :: "string \<Rightarrow> string list" where
  "abs_comps p = norm_comps [] (split_sep CHR ''/'' p)"

fun common_prefix_len :: "string list \<Rightarrow> string list \<Rightarrow> nat" where
  "common_prefix_len (x # xs) (y # ys) = (if x = y then Suc (common_prefix_len xs ys) else 0)"
| "common_prefix_len _ _ = 0"

fun sep_join :: "string list \<Rightarrow> string" where
  "sep_join [] = []"
| "sep_join [c] = c"
| "sep_join (c # cs) = c @ ''/'' @ sep_join cs"

text \<open>\<open>os.path.relpath(path, start)\<close> for absolute \<open>path\<close> and \<open>start\<close>.\<close>

definition relpath :: "string \<Rightarrow> string \<Rightarrow> string" where
  "relpath path start =
     (let start_list = abs_comps start;
          path_list = abs_comps path;
          i = common_prefix_len start_list path_list;
          rel_list = replicate (length start_list - i) ''..'' @ drop i path_list
      in if rel_list = [] then ''.'' else sep_join rel_list)"

section \<open>The file system seen by the walker\<close>

text \<open>
  A non-directory entry carries what the two system calls made on it return:
  \<open>os.path.getsize\<close> (\<open>None\<close> when it raises \<open>OSError\<close>) and reading it as strict UTF-8
  (\<open>None\<close> when \<open>open\<close>/\<open>read\<close> raises \<open>UnicodeDecodeError\<close> or \<open>OSError\<close>). The two
  answers are independent: nothing ties the size reported to the text read.
\<close>

record fentry =
  getsize :: "nat option"
  read_utf8 :: "string option"

text \<open>
  A directory lists its sub-directories and its other entries by name, in the order
  \<open>os.walk\<close> reports them. A directory that cannot be listed, or a symbolic link to a
  directory (listed but not followed), behaves like an empty directory here.
\<close>

datatype dir = Dir (subdirs: "(string \<times> dir) list") (files: "(string \<times> fentry) list")

section \<open>Per-file helpers\<close>

text \<open>The exceptions that end a run.\<close>

datatype exc = SystemExit nat | IndexError | KeyError string | UnicodeEncodeError

text \<open>
  \<open>_file_id\<close>: \<open>hashlib.sha256(filepath.encode()).hexdigest()\<close>. \<open>filepath.encode()\<close>
  raises \<open>UnicodeEncodeError\<close> when the path is not well-formed UTF-8 (it holds a lone
  surrogate). The hash is library code; it enters as the parameter \<open>sha256_hex\<close>, the
  function from a byte string to its hexadecimal SHA-256 digest.
\<close>

definition file_id :: "(string \<Rightarrow> string) \<Rightarrow> string \<Rightarrow> exc + string" where
  "file_id sha256_hex filepath =
     (if valid_utf8 filepath then Inr (sha256_hex filepath) else Inl UnicodeEncodeError)"

text \<open>\<open>_should_skip_file\<close>: the extension test comes first, then the size test.\<close>

definition should_skip_file :: "string \<Rightarrow> fentry \<Rightarrow> bool" where
  "should_skip_file filepath f =
     (if lower (splitext_ext filepath) \<in> BINARY_EXTENSIONS then True
      else (case getsize f of
              None \<Rightarrow> True
            | Some sz \<Rightarrow> sz = 0 \<or> sz > MAX_FILE_SIZE))"

text \<open>\<open>_read_text\<close>: the text, or \<open>None\<close> on failure.\<close>

definition read_text :: "fentry \<Rightarrow> string option" where
  "read_text f = read_utf8 f"

section \<open>The collection of the external store\<close>

type_synonym metadata = "(string \<times> string) list"

record batch =
  ids :: "string list"
  documents :: "string list"
  metadatas :: "metadata list"

text \<open>
  The store is an external collaborator. Its contents are an association list from id
  to document and metadata, \<open>upsert\<close> inserts or overwrites by id, and every
  \<open>upsert\<close> call is recorded in the order it is made.
\<close>

record collection =
  entries :: "(string \<times> string \<times> metadata) list"
  upsert_calls :: "batch list"

fun upsert_entry :: "string \<times> string \<times> metadata \<Rightarrow> (string \<times> string \<times> metadata) list
    \<Rightarrow> (string \<times> string \<times> metadata) list" where
  "upsert_entry e [] = [e]"
| "upsert_entry e (x # xs) = (if fst x = fst e then e # xs else x # upsert_entry e xs)"

definition upsert :: "collection \<Rightarrow> batch \<Rightarrow> collection" where
  "upsert c b =
     c\<lparr>entries := foldl (\<lambda>es e. upsert_entry e es) (entries c)
                     (zip (ids b) (zip (documents b) (metadatas b))),
       upsert_calls := upsert_calls c @ [b]\<rparr>"

definition count :: "collection \<Rightarrow> nat" where
  "count c = length (entries c)"

section \<open>walk\_and\_index\<close>

text \<open>
  The state of the indexing loop: the three buffers \<open>ids\<close>, \<open>documents\<close> and
  \<open>metadatas\<close>, the lines printed to standard output, the collection, and the exception
  that has been raised, if any. Standard output is a UTF-8 stream, and \<open>strict_stdout\<close>
  tells how it treats a line that is not well-formed UTF-8: with the \<open>strict\<close> error
  handler (Python's default) \<open>print\<close> raises \<open>UnicodeEncodeError\<close> and writes nothing,
  with \<open>surrogateescape\<close> (the C locale) the bytes are written.
\<close>

record index_state = batch +
  stdout :: "string list"
  strict_stdout :: bool
  aborted :: "exc option"
  coll :: collection

definition print :: "string \<Rightarrow> index_state \<Rightarrow> index_state" where
  "print line st =
     (if strict_stdout st \<and> \<not> valid_utf8 line then st\<lparr>aborted := Some UnicodeEncodeError\<rparr>
      else st\<lparr>stdout := stdout st @ [line]\<rparr>)"

definition buffer :: "index_state \<Rightarrow> batch" where
  "buffer st = \<lparr>ids = ids st, documents = documents st, metadatas = metadatas st\<rparr>"

text \<open>
  The body of the inner loop \<open>for fname in files\<close>, for one entry of \<open>files\<close>. An
  exception leaves the state as it is when it is raised: the statements after it are not
  run.
\<close>

definition process_file ::
    "(string \<Rightarrow> string) \<Rightarrow> string \<Rightarrow> bool \<Rightarrow> string \<Rightarrow> string \<times> fentry \<Rightarrow> index_state \<Rightarrow> index_state" where
  "process_file sha256_hex directory verbose rootdir ent st =
     (let filepath = path_join rootdir (fst ent)
      in if should_skip_file filepath (snd ent)
         then (if verbose then print (''  skip  '' @ filepath) st else st)
         else (case read_text (snd ent) of
                 None \<Rightarrow>
                   (if verbose then print (''  skip  '' @ filepath @ '' (not utf-8)'') st else st)
               | Some content \<Rightarrow>
                   (let rel = relpath filepath directory
                    in case file_id sha256_hex rel of
                         Inl e \<Rightarrow> st\<lparr>aborted := Some e\<rparr>
                       | Inr doc_id \<Rightarrow>
                           (let st1 = st\<lparr>ids := ids st @ [doc_id],
                                         documents := documents st @ [content],
                                         metadatas := metadatas st @ [[(''path'', rel)]]\<rparr>;
                                st2 = (if verbose then print (''  index '' @ rel) st1 else st1)
                            in if aborted st2 \<noteq> None then st2
                               else if length (ids st2) \<ge> 50
                               then st2\<lparr>ids := [], documents := [], metadatas := [],
                                        coll := upsert (coll st2) (buffer st2)\<rparr>
                               else st2))))"

text \<open>
  The two loops. An exception raised in the body is not caught: it ends both loops, and
  the files and directories after it are not reached.
\<close>

fun index_files ::
    "(string \<Rightarrow> string) \<Rightarrow> string \<Rightarrow> bool \<Rightarrow> string \<Rightarrow> (string \<times> fentry) list \<Rightarrow> index_state
      \<Rightarrow> index_state" where
  "index_files sha256_hex directory verbose rootdir [] st = st"
| "index_files sha256_hex directory verbose rootdir (ent # rest) st =
     (let st1 = process_file sha256_hex directory verbose rootdir ent st
      in if aborted st1 \<noteq> None then st1
         else index_files sha256_hex directory verbose rootdir rest st1)"

fun index_dirs ::
    "(string \<Rightarrow> string) \<Rightarrow> string \<Rightarrow> bool \<Rightarrow> (string \<times> (string \<times> fentry) list) list
      \<Rightarrow> index_state \<Rightarrow> index_state" where
  "index_dirs sha256_hex directory verbose [] st = st"
| "index_dirs sha256_hex directory verbose (w # rest) st =
     (let st1 = index_files sha256_hex directory verbose (fst w) (snd w) st
      in if aborted st1 \<noteq> None then st1
         else index_dirs sha256_hex directory verbose rest st1)"

text \<open>
  \<open>os.walk(directory)\<close>, top-down, together with the first statement of the loop body,
  \<open>dirs[:] = [d for d in dirs if d not in SKIP_DIRS]\<close>: the generator descends only
  into the sub-directories the body has left in \<open>dirs\<close>. Each element is the \<open>root\<close>
  yielded and the \<open>files\<close> of that directory.
\<close>

fun os_walk :: "string \<Rightarrow> dir \<Rightarrow> (string \<times> (string \<times> fentry) list) list" where
  "os_walk rootdir (Dir ds fs) =
     (rootdir, fs) #
     concat (map (\<lambda>d. os_walk (path_join rootdir (fst d)) (snd d))
                 (filter (\<lambda>d. fst d \<notin> SKIP_DIRS) ds))"

text \<open>Decimal rendering of a natural number, as \<open>str\<close> and f-strings give it.\<close>

fun str_nat :: "nat \<Rightarrow> string" where
  "str_nat n =
     (if n < 10 then [''0123456789'' ! n]
      else str_nat (n div 10) @ [''0123456789'' ! (n mod 10)])"

declare str_nat.simps [simp del]

text \<open>
  \<open>get_client\<close> and \<open>get_collection\<close> open the persisted collection: a handle on the
  entries already stored, on which no call has been made yet.
\<close>

definition get_collection :: "(string \<times> string \<times> metadata) list \<Rightarrow> collection" where
  "get_collection stored = \<lparr>entries = stored, upsert_calls = []\<rparr>"

text \<open>
  \<open>walk_and_index\<close>. When the loops end by an exception, the final flush and the summary
  are not run; the calls already made on the store and the lines already printed stand.
  The calls on the store themselves are taken to succeed.
\<close>

definition walk_and_index ::
    "(string \<Rightarrow> string) \<Rightarrow> string \<Rightarrow> bool \<Rightarrow> bool \<Rightarrow> dir \<Rightarrow> (string \<times> string \<times> metadata) list
      \<Rightarrow> index_state" where
  "walk_and_index sha256_hex directory verbose strict tree stored =
     (let st0 = \<lparr>ids = [], documents = [], metadatas = [], stdout = [],
                 strict_stdout = strict, aborted = None, coll = get_collection stored\<rparr>;
          st1 = index_dirs sha256_hex directory verbose (os_walk directory tree) st0
      in if aborted st1 \<noteq> None then st1
         else (let st2 = (if ids st1 \<noteq> [] then st1\<lparr>coll := upsert (coll st1) (buffer st1)\<rparr>
                          else st1);
                   total = count (coll st2)
               in print (''Collection '' @ [CHR 0x27] @ COLLECTION_NAME @ [CHR 0x27]
                         @ '' now contains '' @ str_nat total @ '' documents.'') st2))"

section \<open>query\_collection\<close>

text \<open>
  What a run leaves behind: the lines on standard output and on standard error, the
  exception that ended it (if any), and the calls made on the store.
\<close>

record outcome =
  out :: "string list"
  err :: "string list"
  raised :: "exc option"
  upserted :: "batch list"
  queried :: "(string list \<times> int) list"

text \<open>
  The exit status of the process: \<open>sys.exit(n)\<close> gives \<open>n\<close>, any other uncaught
  exception gives 1, a normal return gives 0.
\<close>

definition exit_code :: "outcome \<Rightarrow> nat" where
  "exit_code r = (case raised r of None \<Rightarrow> 0 | Some (SystemExit n) \<Rightarrow> n | Some _ \<Rightarrow> 1)"

text \<open>
  The answer of \<open>collection.query\<close>: one list of metadata dictionaries and one list of
  distances per query text. A distance is a Python float, a binary64 number; a finite
  one is modelled by the rational number it denotes (infinities and NaN are left out).
\<close>

record query_result =
  res_metadatas :: "metadata list list"
  res_distances :: "rat list list"

text \<open>The store as the query sees it: its record count and its similarity search.\<close>

record store =
  store_count :: nat
  store_query :: "string list \<Rightarrow> int \<Rightarrow> query_result"

text \<open>
  Binary64 arithmetic. \<open>float_round\<close> rounds a rational number to the nearest number
  with a 53-bit significand, ties to the even significand, with the spacing of the
  subnormal numbers below \<open>2 ^ -1022\<close>; overflow to infinity is not modelled.
  \<open>floor_log2 x\<close> is the exponent \<open>e\<close> with \<open>2 ^ e \<le> x < 2 ^ (e + 1)\<close>, for \<open>x > 0\<close>.
\<close>

fun bitlen :: "nat \<Rightarrow> nat" where
  "bitlen n = (if n = 0 then 0 else Suc (bitlen (n div 2)))"

declare bitlen.simps [simp del]

definition floor_log2 :: "rat \<Rightarrow> int" where
  "floor_log2 x =
     (if 1 \<le> x then int (bitlen (nat \<lfloor>x\<rfloor>)) - 1
      else - int (bitlen (nat (\<lceil>1 / x\<rceil> - 1))))"

definition pow2 :: "int \<Rightarrow> rat" where
  "pow2 e = (if 0 \<le> e then 2 ^ nat e else 1 / 2 ^ nat (- e))"

definition round_half_even :: "rat \<Rightarrow> int" where
  "round_half_even x =
     (let f = \<lfloor>x\<rfloor>; r = x - of_int f
      in if r < 1 / 2 then f
         else if r > 1 / 2 then f + 1
         else if even f then f else f + 1)"

definition float_round :: "rat \<Rightarrow> rat" where
  "float_round x =
     (if x = 0 then 0
      else (let e = max (floor_log2 \<bar>x\<bar>) (- 1022);
                q = pow2 (e - 52)
            in of_int (round_half_even (x / q)) * q))"

text \<open>The float subtraction \<open>a - b\<close>: the exact difference, rounded.\<close>

definition float_sub :: "rat \<Rightarrow> rat \<Rightarrow> rat" where
  "float_sub a b = float_round (a - b)"

text \<open>
  The format specification \<open>+.4f\<close>: a sign, the integer part, a dot and four decimals,
  the exact value of the float rounded to the nearest multiple of \<open>0.0001\<close>, ties to the
  even one.
\<close>

definition digit :: "nat \<Rightarrow> char" where
  "digit n = ''0123456789'' ! (n mod 10)"

definition frac4 :: "nat \<Rightarrow> string" where
  "frac4 m = [digit (m div 1000), digit (m div 100), digit (m div 10), digit m]"

definition fmt_plus_4f :: "rat \<Rightarrow> string" where
  "fmt_plus_4f x =
     (let n = nat (round_half_even (\<bar>x\<bar> * 10000))
      in (if x < 0 then ''-'' else ''+'') @ str_nat (n div 10000) @ ''.'' @ frac4 (n mod 10000))"

text \<open>
  The loop \<open>for meta, dist in zip(paths, distances)\<close>. The paths the store returns are
  paths an indexing run has stored, after \<open>_file_id\<close> has encoded them: they are
  well-formed UTF-8, and \<open>print\<close> takes them on either kind of standard output.
\<close>

fun print_results :: "(metadata \<times> rat) list \<Rightarrow> outcome \<Rightarrow> outcome" where
  "print_results [] r = r"
| "print_results ((meta, distance) # rest) r =
     (let score = float_sub 1 distance
      in case map_of meta ''path'' of
           None \<Rightarrow> r\<lparr>raised := Some (KeyError ''path'')\<rparr>
         | Some p \<Rightarrow> print_results rest (r\<lparr>out := out r @ [fmt_plus_4f score @ ''  '' @ p]\<rparr>))"

definition query_collection :: "store \<Rightarrow> string \<Rightarrow> string \<Rightarrow> int \<Rightarrow> outcome" where
  "query_collection collection directory query_text n_results =
     (let r0 = \<lparr>out = [], err = [], raised = None, upserted = [], queried = []\<rparr>
      in if store_count collection = 0
         then r0\<lparr>err := [''Collection is empty. Run --index first.''],
                 raised := Some (SystemExit 1)\<rparr>
         else (let results = store_query collection [query_text] n_results;
                   r1 = r0\<lparr>queried := [([query_text], n_results)]\<rparr>
               in case res_metadatas results of
                    [] \<Rightarrow> r1\<lparr>raised := Some IndexError\<rparr>
                  | paths # _ \<Rightarrow>
                      (case res_distances results of
                         [] \<Rightarrow> r1\<lparr>raised := Some IndexError\<rparr>
                       | distances # _ \<Rightarrow> print_results (zip paths distances) r1)))"

section \<open>main\<close>

text \<open>The namespace \<open>parse_args\<close> returns; \<open>query\<close> is \<open>None\<close> without \<open>--query\<close>.\<close>

record args =
  arg_directory :: string
  arg_index :: bool
  arg_query :: "string option"
  arg_num_results :: int
  arg_verbose :: bool

text \<open>
  The environment of a run: whether the (absolute) directory argument is a directory,
  whether standard output has the strict error handler, the tree below the directory,
  the entries the persisted collection holds, and the store's answers to queries.
\<close>

record env =
  env_isdir :: bool
  env_stdout_strict :: bool
  env_tree :: dir
  env_stored :: "(string \<times> string \<times> metadata) list"
  env_store :: store

text \<open>
  \<open>main\<close> after \<open>parse_args\<close>. \<open>arg_directory\<close> stands for the absolute path
  \<open>os.path.abspath\<close> makes of the argument. \<open>parser.error\<close> writes the usage and its
  message to standard error (only the message is kept here) and exits with status 2.
  The \<open>elif args.query\<close> test is Python truthiness: \<open>None\<close> and the empty string are
  both false.
\<close>

definition main :: "(string \<Rightarrow> string) \<Rightarrow> env \<Rightarrow> args \<Rightarrow> outcome" where
  "main sha256_hex e a =
     (let r0 = \<lparr>out = [], err = [], raised = None, upserted = [], queried = []\<rparr>;
          directory = arg_directory a
      in if \<not> env_isdir e
         then r0\<lparr>err := [''Not a directory: '' @ directory], raised := Some (SystemExit 2)\<rparr>
         else if arg_index a
         then (if env_stdout_strict e \<and> \<not> valid_utf8 (''Indexing '' @ directory @ '' ...'')
               then r0\<lparr>raised := Some UnicodeEncodeError\<rparr>
               else (let st = walk_and_index sha256_hex directory (arg_verbose a)
                                (env_stdout_strict e) (env_tree e) (env_stored e)
                     in r0\<lparr>out := (''Indexing '' @ directory @ '' ...'') # stdout st,
                             raised := aborted st,
                             upserted := upsert_calls (coll st)\<rparr>))
         else (case arg_query a of
                 None \<Rightarrow> r0
               | Some q \<Rightarrow>
                   (if q \<noteq> [] then query_collection (env_store e) directory q (arg_num_results a)
                    else r0)))"

section \<open>Notions used to state the properties\<close>

text \<open>
  The files \<open>os.walk\<close> yields, in order, each with the \<open>root\<close> it is yielded under: the
  files the loops reach one after the other until the run ends.
\<close>

definition visited :: "string \<Rightarrow> dir \<Rightarrow> (string \<times> string \<times> fentry) list" where
  "visited directory tree =
     concat (map (\<lambda>(rootdir, fs). map (Pair rootdir) fs) (os_walk directory tree))"

text \<open>
  Every non-directory entry of a tree, pruned or not: the names of the directories
  from the top down to it, its name, and the entry.
\<close>

fun tree_files :: "dir \<Rightarrow> (string list \<times> string \<times> fentry) list" where
  "tree_files (Dir ds fs) =
     map (\<lambda>e. ([], e)) fs @
     concat (map (\<lambda>d. map (\<lambda>pe. (fst d # fst pe, snd pe)) (tree_files (snd d))) ds)"

definition entry_path :: "string \<Rightarrow> string list \<Rightarrow> string \<Rightarrow> string" where
  "entry_path directory p fname = path_join (foldl path_join directory p) fname"

text \<open>The file passes the filters of the loop body.\<close>

definition accepted :: "string \<times> string \<times> fentry \<Rightarrow> bool" where
  "accepted v =
     (\<not> should_skip_file (path_join (fst v) (fst (snd v))) (snd (snd v))
      \<and> read_text (snd (snd v)) \<noteq> None)"

text \<open>
  The relative path of the file can be encoded: \<open>_file_id\<close> does not raise on it.
\<close>

definition encodable :: "string \<Rightarrow> string \<times> string \<times> fentry \<Rightarrow> bool" where
  "encodable directory v = valid_utf8 (relpath (path_join (fst v) (fst (snd v))) directory)"

text \<open>The record (id, document, metadata) the loop body buffers for an accepted file.\<close>

definition record_of ::
    "(string \<Rightarrow> string) \<Rightarrow> string \<Rightarrow> string \<Rightarrow> string \<Rightarrow> string \<times> string \<times> metadata" where
  "record_of sha256_hex directory filepath content =
     (sha256_hex (relpath filepath directory), content,
      [(''path'', relpath filepath directory)])"

definition visited_record ::
    "(string \<Rightarrow> string) \<Rightarrow> string \<Rightarrow> string \<times> string \<times> fentry \<Rightarrow> string \<times> string \<times> metadata" where
  "visited_record sha256_hex directory v =
     record_of sha256_hex directory (path_join (fst v) (fst (snd v)))
       (case read_text (snd (snd v)) of None \<Rightarrow> [] | Some content \<Rightarrow> content)"

definition batch_of :: "(string \<times> string \<times> metadata) list \<Rightarrow> batch" where
  "batch_of rs =
     \<lparr>ids = map fst rs, documents = map (\<lambda>r. fst (snd r)) rs,
      metadatas = map (\<lambda>r. snd (snd r)) rs\<rparr>"

definition batch_records :: "batch \<Rightarrow> (string \<times> string \<times> metadata) list" where
  "batch_records b = zip (ids b) (zip (documents b) (metadatas b))"

text \<open>The records handed to the store by an indexing run, in the order of the calls.\<close>

definition indexed_records ::
    "(string \<Rightarrow> string) \<Rightarrow> string \<Rightarrow> bool \<Rightarrow> bool \<Rightarrow> dir \<Rightarrow> (string \<times> string \<times> metadata) list
      \<Rightarrow> (string \<times> string \<times> metadata) list" where
  "indexed_records sha256_hex directory verbose strict tree stored =
     concat (map batch_records
       (upsert_calls (coll (walk_and_index sha256_hex directory verbose strict tree stored))))"

text \<open>
  Batching as the specification words it: a list cut into consecutive pieces of \<open>n\<close>
  elements, the last piece holding the remainder when there is one.
\<close>

fun chunks :: "nat \<Rightarrow> 'a list \<Rightarrow> 'a list list" where
  "chunks n xs = (if n = 0 \<or> xs = [] then [] else take n xs # chunks n (drop n xs))"

declare chunks.simps [simp del]

text \<open>
  The pieces of exactly \<open>n\<close> elements among them, and what is left after them: the batches
  handed over while the loops run, and the content of the buffer.
\<close>

fun full_chunks :: "nat \<Rightarrow> 'a list \<Rightarrow> 'a list list" where
  "full_chunks n xs =
     (if n = 0 \<or> length xs < n then [] else take n xs # full_chunks n (drop n xs))"

fun leftover :: "nat \<Rightarrow> 'a list \<Rightarrow> 'a list" where
  "leftover n xs = (if n = 0 \<or> length xs < n then xs else leftover n (drop n xs))"

declare full_chunks.simps [simp del]

declare leftover.simps [simp del]

text \<open>The loop body as a function of the state and the visited file.\<close>

definition step ::
    "(string \<Rightarrow> string) \<Rightarrow> string \<Rightarrow> bool \<Rightarrow> index_state \<Rightarrow> string \<times> string \<times> fentry
      \<Rightarrow> index_state" where
  "step H d v st x = process_file H d v (fst x) (snd x) st"

text \<open>
  An entry of \<open>tree_files\<close> lies below no directory of the exclusion set, and the
  \<open>root\<close> under which the walk reports it.
\<close>

definition unpruned :: "string list \<times> string \<times> fentry \<Rightarrow> bool" where
  "unpruned = (\<lambda>e. list_all (\<lambda>x. x \<notin> SKIP_DIRS) (fst e))"

definition locate :: "string \<Rightarrow> string list \<times> string \<times> fentry \<Rightarrow> string \<times> string \<times> fentry" where
  "locate directory = (\<lambda>e. (foldl path_join directory (fst e), snd e))"

section \<open>Verbose logging\<close>

text \<open>
  The decision the loop body takes on a file, by the branch that takes it: the extension
  test and the two outcomes of the size test in \<open>_should_skip_file\<close> (\<open>getsize\<close>
  failed, size 0 or too large), the failed read, or none of them.
\<close>

datatype decision =
  RejectedExtension | RejectedStatError | RejectedSize | RejectedNotUtf8 | Indexed

definition decision :: "string \<Rightarrow> fentry \<Rightarrow> decision" where
  "decision filepath f =
     (if lower (splitext_ext filepath) \<in> BINARY_EXTENSIONS then RejectedExtension
      else (case getsize f of
              None \<Rightarrow> RejectedStatError
            | Some sz \<Rightarrow>
                if sz = 0 \<or> sz > MAX_FILE_SIZE then RejectedSize
                else (case read_text f of None \<Rightarrow> RejectedNotUtf8 | Some content \<Rightarrow> Indexed)))"

text \<open>The line the loop body prints for a visited file in verbose mode.\<close>

definition log_line :: "string \<Rightarrow> string \<times> string \<times> fentry \<Rightarrow> string" where
  "log_line directory x =
     (let filepath = path_join (fst x) (fst (snd x))
      in case decision filepath (snd (snd x)) of
           Indexed \<Rightarrow> ''  index '' @ relpath filepath directory
         | RejectedNotUtf8 \<Rightarrow> ''  skip  '' @ filepath @ '' (not utf-8)''
         | _ \<Rightarrow> ''  skip  '' @ filepath)"

text \<open>The closing line of an indexing run, for a collection of \<open>k\<close> records.\<close>

definition summary_line :: "nat \<Rightarrow> string" where
  "summary_line k =
     ''Collection '' @ [CHR 0x27] @ COLLECTION_NAME @ [CHR 0x27] @ '' now contains ''
     @ str_nat k @ '' documents.''"

section \<open>Runs that an exception ends\<close>

text \<open>
  The loop body raises on a visited file in two cases: the file is accepted and its
  relative path cannot be encoded (\<open>_file_id\<close>), or the file is skipped in verbose mode
  and standard output refuses the line, which then holds a path that is not well-formed
  UTF-8.
\<close>

definition raises :: "string \<Rightarrow> string \<times> string \<times> fentry \<Rightarrow> bool" where
  "raises directory x = (accepted x \<and> \<not> encodable directory x)"

definition stops :: "string \<Rightarrow> bool \<Rightarrow> bool \<Rightarrow> string \<times> string \<times> fentry \<Rightarrow> bool" where
  "stops directory verbose strict x =
     (raises directory x \<or>
      (verbose \<and> strict \<and> \<not> accepted x \<and> \<not> valid_utf8 (log_line directory x)))"

text \<open>The files the loop body handles to its end: those before the first that raises.\<close>

definition handled ::
    "string \<Rightarrow> bool \<Rightarrow> bool \<Rightarrow> (string \<times> string \<times> fentry) list \<Rightarrow> (string \<times> string \<times> fentry) list" where
  "handled directory verbose strict xs = takeWhile (\<lambda>x. \<not> stops directory verbose strict x) xs"

text \<open>
  The state the loops leave when they run over the files \<open>xs\<close> from the state \<open>st\<close>:
  the loop body is run on the files handled, and the exception is recorded when a file
  raises.
\<close>

definition run_over ::
    "(string \<Rightarrow> string) \<Rightarrow> string \<Rightarrow> bool \<Rightarrow> (string \<times> string \<times> fentry) list \<Rightarrow> index_state
      \<Rightarrow> index_state" where
  "run_over H d v xs st =
     (if list_ex (stops d v (strict_stdout st)) xs
      then (foldl (step H d v) st (handled d v (strict_stdout st) xs))
             \<lparr>aborted := Some UnicodeEncodeError\<rparr>
      else foldl (step H d v) st (handled d v (strict_stdout st) xs))"

section \<open>Example inputs\<close>

text \<open>A store of two records that answers every query with the same two results.\<close>

definition example_store :: store where
  "example_store =
     \<lparr>store_count = 2,
      store_query = (\<lambda>qs k. \<lparr>res_metadatas = [[[(''path'', ''a.txt'')], [(''path'', ''sub/b.md'')]]],
                              res_distances = [[float_round (2 / 10), 5 / 4]]\<rparr>)\<rparr>"

text \<open>
  A small tree with one file for each decision of the loop body, two excluded
  directories and one ordinary sub-directory. Contents are kept short: the size is what
  \<open>getsize\<close> reports, whatever the read returns.
\<close>

definition example_tree :: dir where
  "example_tree =
     Dir [(''sub'', Dir [] [(''b.md'', \<lparr>getsize = Some 3, read_utf8 = Some ''abc''\<rparr>)]),
          (''.git'', Dir [] [(''config'', \<lparr>getsize = Some 4, read_utf8 = Some ''core''\<rparr>)]),
          (''node_modules'',
             Dir [(''pkg'', Dir [] [(''index.js'', \<lparr>getsize = Some 2, read_utf8 = Some ''js''\<rparr>)])] [])]
         [(''a.txt'', \<lparr>getsize = Some 10, read_utf8 = Some ''0123456789''\<rparr>),
          (''x.PNG'', \<lparr>getsize = Some 10, read_utf8 = Some ''0123456789''\<rparr>),
          (''empty.txt'', \<lparr>getsize = Some 0, read_utf8 = Some ''''\<rparr>),
          (''big.txt'', \<lparr>getsize = Some 1000001, read_utf8 = Some ''big''\<rparr>),
          (''limit.txt'', \<lparr>getsize = Some 1000000, read_utf8 = Some ''limit''\<rparr>),
          (''gone.txt'', \<lparr>getsize = None, read_utf8 = None\<rparr>),
          (''latin1.txt'', \<lparr>getsize = Some 4, read_utf8 = None\<rparr>)]"


text \<open>
  Three small text files. The name of the second is \<open>caf\<close>, the byte \<open>E9\<close> (an accented
  \<open>e\<close> in Latin-1) and \<open>.txt\<close>: it is not well-formed UTF-8.
\<close>

definition latin1_name_tree :: dir where
  "latin1_name_tree =
     Dir [] [(''a.txt'', \<lparr>getsize = Some 5, read_utf8 = Some ''alpha''\<rparr>),
             (''caf'' @ [CHR 0xE9] @ ''.txt'', \<lparr>getsize = Some 5, read_utf8 = Some ''crema''\<rparr>),
             (''z.txt'', \<lparr>getsize = Some 4, read_utf8 = Some ''zulu''\<rparr>)]"


section \<open>Cutting a list into batches\<close>

lemma chunks_Nil [simp]: "chunks n [] = []"
  by (simp add: chunks.simps)


lemma chunks_full: "length xs = n \<Longrightarrow> 0 < n \<Longrightarrow> chunks n (xs @ ys) = xs # chunks n ys"
  by (subst chunks.simps) auto

lemma full_chunks_short: "length xs < n \<Longrightarrow> full_chunks n xs = []"
  by (subst full_chunks.simps) simp

lemma leftover_short: "length xs < n \<Longrightarrow> leftover n xs = xs"
  by (subst leftover.simps) simp

lemma full_chunks_full:
  "length xs = n \<Longrightarrow> 0 < n \<Longrightarrow> full_chunks n (xs @ ys) = xs # full_chunks n ys"
  by (subst full_chunks.simps) auto

lemma leftover_full: "length xs = n \<Longrightarrow> 0 < n \<Longrightarrow> leftover n (xs @ ys) = leftover n ys"
  by (subst leftover.simps) auto


lemma concat_full_chunks: "concat (full_chunks n xs) @ leftover n xs = xs"
proof (induction n xs rule: full_chunks.induct)
  case (1 n xs)
  show ?case
  proof (cases "n = 0 \<or> length xs < n")
    case True
    then show ?thesis
      by (subst full_chunks.simps, subst leftover.simps) simp
  next
    case False
    have f: "full_chunks n xs = take n xs # full_chunks n (drop n xs)"
      using False by (subst full_chunks.simps) simp
    have l: "leftover n xs = leftover n (drop n xs)"
      using False by (subst leftover.simps) simp
    from "1.IH" False show ?thesis by (simp add: f l)
  qed
qed

lemma set_full_chunks: "c \<in> set (full_chunks n xs) \<Longrightarrow> set c \<subseteq> set xs"
  using concat_full_chunks [of n xs]
  by (metis Un_iff UN_I set_append set_concat subsetI)

lemma length_leftover: "0 < n \<Longrightarrow> length (leftover n xs) < n"
proof (induction n xs rule: leftover.induct)
  case (1 n xs)
  show ?case
  proof (cases "length xs < n")
    case True
    then show ?thesis by (simp add: leftover_short)
  next
    case False
    with 1 show ?thesis by (subst leftover.simps) simp
  qed
qed

lemma length_full_chunks: "c \<in> set (full_chunks n xs) \<Longrightarrow> length c = n"
proof (induction n xs rule: full_chunks.induct)
  case (1 n xs)
  show ?case
  proof (cases "n = 0 \<or> length xs < n")
    case True
    with "1.prems" show ?thesis by (subst (asm) full_chunks.simps) simp
  next
    case False
    have f: "full_chunks n xs = take n xs # full_chunks n (drop n xs)"
      using False by (subst full_chunks.simps) simp
    from "1.prems" "1.IH" False show ?thesis by (auto simp: f)
  qed
qed

section \<open>Well-formed UTF-8\<close>

lemma valid_utf8_bytes_Nil: "valid_utf8_bytes [] = True"
  by (simp add: valid_utf8_bytes.simps)

lemma valid_utf8_bytes_Cons:
  "valid_utf8_bytes (a # bs) =
     (if utf8_seq_len (a # bs) = 0 then False
      else valid_utf8_bytes (drop (utf8_seq_len (a # bs)) (a # bs)))"
  by (subst valid_utf8_bytes.simps) simp

lemmas utf8_eval = valid_utf8_def valid_utf8_bytes_Nil valid_utf8_bytes_Cons cont_def

lemma valid_utf8_bytes_ascii_Cons: "a < 128 \<Longrightarrow> valid_utf8_bytes (a # bs) = valid_utf8_bytes bs"
  by (subst valid_utf8_bytes.simps) simp

lemma valid_utf8_bytes_ascii: "\<forall>b \<in> set bs. b < 128 \<Longrightarrow> valid_utf8_bytes bs"
  by (induction bs) (simp_all add: valid_utf8_bytes_Nil valid_utf8_bytes_ascii_Cons)

lemma valid_utf8_ascii: "ascii s \<Longrightarrow> valid_utf8 s"
  by (simp add: valid_utf8_def ascii_def valid_utf8_bytes_ascii)

lemma valid_utf8_ascii_prefix: "ascii p \<Longrightarrow> valid_utf8 (p @ s) = valid_utf8 s"
  by (induction p) (simp_all add: valid_utf8_def ascii_def valid_utf8_bytes_ascii_Cons)

section \<open>Decimal digits\<close>

lemma digit_in: "digit n \<in> set ''0123456789''"
proof -
  have "n mod 10 < 10" by simp
  then have "n mod 10 = 0 \<or> n mod 10 = 1 \<or> n mod 10 = 2 \<or> n mod 10 = 3 \<or> n mod 10 = 4 \<or>
      n mod 10 = 5 \<or> n mod 10 = 6 \<or> n mod 10 = 7 \<or> n mod 10 = 8 \<or> n mod 10 = 9"
    by arith
  then show ?thesis unfolding digit_def by auto
qed

lemma str_nat_digits: "set (str_nat n) \<subseteq> set ''0123456789''"
proof (induction n rule: str_nat.induct)
  case (1 n)
  have d: "''0123456789'' ! (k mod 10) \<in> set ''0123456789''" for k
    using digit_in[of k] by (simp add: digit_def)
  show ?case
  proof (cases "n < 10")
    case True
    then have "n mod 10 = n" by simp
    with d[of n] True show ?thesis by (subst str_nat.simps) simp
  next
    case False
    with 1 d[of n] show ?thesis by (subst str_nat.simps) simp
  qed
qed

section \<open>The loop body\<close>

lemma coll_print [simp]: "coll (print l st) = coll st"
  by (simp add: print_def)

lemma buffer_print [simp]: "buffer (print l st) = buffer st"
  by (simp add: print_def buffer_def)

lemma strict_stdout_print [simp]: "strict_stdout (print l st) = strict_stdout st"
  by (simp add: print_def)

lemma upsert_calls_upsert [simp]: "upsert_calls (upsert c b) = upsert_calls c @ [b]"
  by (simp add: upsert_def)

lemma print_accepted:
  "\<not> (strict_stdout st \<and> \<not> valid_utf8 l) \<Longrightarrow> print l st = st\<lparr>stdout := stdout st @ [l]\<rparr>"
  by (auto simp: print_def)

lemma print_refused:
  "strict_stdout st \<Longrightarrow> \<not> valid_utf8 l \<Longrightarrow> print l st = st\<lparr>aborted := Some UnicodeEncodeError\<rparr>"
  by (simp add: print_def)

lemma ascii_index: "ascii ''  index ''"
  by (simp add: ascii_def)

lemma valid_index_line: "valid_utf8 (''  index '' @ rel) = valid_utf8 rel"
  by (rule valid_utf8_ascii_prefix) (rule ascii_index)

lemma log_line_by_tests:
  "log_line d x =
     (if should_skip_file (path_join (fst x) (fst (snd x))) (snd (snd x))
      then ''  skip  '' @ path_join (fst x) (fst (snd x))
      else if read_text (snd (snd x)) = None
      then ''  skip  '' @ path_join (fst x) (fst (snd x)) @ '' (not utf-8)''
      else ''  index '' @ relpath (path_join (fst x) (fst (snd x))) d)"
  by (auto simp: log_line_def decision_def should_skip_file_def Let_def split: option.splits)

lemma strict_stdout_step [simp]: "strict_stdout (step H d v st x) = strict_stdout st"
  by (auto simp: step_def process_file_def file_id_def Let_def split: option.splits)

lemma step_stops:
  assumes "stops d v (strict_stdout st) x"
  shows "step H d v st x = st\<lparr>aborted := Some UnicodeEncodeError\<rparr>"
proof (cases "accepted x")
  case True
  with assms have "\<not> encodable d x" by (simp add: stops_def raises_def)
  with True show ?thesis
    by (auto simp: step_def process_file_def file_id_def accepted_def encodable_def Let_def
        split: option.splits)
next
  case False
  with assms have p: "v" "strict_stdout st" "\<not> valid_utf8 (log_line d x)"
    by (simp_all add: stops_def raises_def)
  show ?thesis
  proof (cases "should_skip_file (path_join (fst x) (fst (snd x))) (snd (snd x))")
    case True
    with p(3) have "\<not> valid_utf8 (''  skip  '' @ path_join (fst x) (fst (snd x)))"
      by (simp only: log_line_by_tests if_True simp_thms)
    from print_refused[OF p(2) this] True p(1) show ?thesis
      by (simp only: step_def process_file_def Let_def if_True simp_thms)
  next
    case s: False
    with False have n: "read_text (snd (snd x)) = None"
      by (auto simp: accepted_def)
    with s p(3) have
      "\<not> valid_utf8 (''  skip  '' @ path_join (fst x) (fst (snd x)) @ '' (not utf-8)'')"
      by (simp only: log_line_by_tests if_True if_False simp_thms)
    from print_refused[OF p(2) this] s n p(1) show ?thesis
      by (simp only: step_def process_file_def Let_def if_True if_False option.case simp_thms)
  qed
qed

lemma step_rejected:
  "\<not> accepted x \<Longrightarrow> buffer (step H d v st x) = buffer st \<and> coll (step H d v st x) = coll st"
  by (auto simp: step_def accepted_def process_file_def Let_def split: option.splits)

lemma step_rejected_aborted:
  assumes "\<not> accepted x" "\<not> stops d v (strict_stdout st) x"
  shows "aborted (step H d v st x) = aborted st \<and>
         stdout (step H d v st x) = stdout st @ (if v then [log_line d x] else [])"
proof (cases v)
  case False
  with assms(1) show ?thesis
    by (auto simp: step_def accepted_def process_file_def Let_def split: option.splits)
next
  case True
  with assms have q: "\<not> (strict_stdout st \<and> \<not> valid_utf8 (log_line d x))"
    by (simp add: stops_def raises_def)
  have "step H d v st x = print (log_line d x) st"
  proof (cases "should_skip_file (path_join (fst x) (fst (snd x))) (snd (snd x))")
    case s: True
    with True show ?thesis
      by (simp only: step_def process_file_def Let_def log_line_by_tests if_True simp_thms)
  next
    case s: False
    with assms(1) have n: "read_text (snd (snd x)) = None"
      by (auto simp: accepted_def)
    with s True show ?thesis
      by (simp only: step_def process_file_def Let_def log_line_by_tests if_True if_False
          option.case simp_thms)
  qed
  with print_accepted[OF q] True show ?thesis by simp
qed

lemma step_indexed:
  assumes "accepted x" "encodable d x"
  shows "step H d v st x =
     (let st1 = st\<lparr>ids := ids st @ [fst (visited_record H d x)],
                    documents := documents st @ [fst (snd (visited_record H d x))],
                    metadatas := metadatas st @ [snd (snd (visited_record H d x))]\<rparr>;
          st2 = (if v then st1\<lparr>stdout := stdout st @ [log_line d x]\<rparr> else st1)
      in if aborted st \<noteq> None then st2
         else if length (ids st) \<ge> 49
         then st2\<lparr>ids := [], documents := [], metadatas := [],
                  coll := upsert (coll st) (buffer st1)\<rparr>
         else st2)"
proof -
  from assms obtain content where c: "read_text (snd (snd x)) = Some content"
    and s: "\<not> should_skip_file (path_join (fst x) (fst (snd x))) (snd (snd x))"
    by (auto simp: accepted_def)
  from assms(2) have e: "valid_utf8 (relpath (path_join (fst x) (fst (snd x))) d)"
    by (simp add: encodable_def)
  then have l: "valid_utf8 (''  index '' @ relpath (path_join (fst x) (fst (snd x))) d)"
    by (simp only: valid_index_line)
  have ll: "log_line d x = ''  index '' @ relpath (path_join (fst x) (fst (snd x))) d"
    using c s by (simp only: log_line_by_tests if_False option.distinct simp_thms)
  have pr: "\<And>t. print (log_line d x) t = t\<lparr>stdout := stdout t @ [log_line d x]\<rparr>"
    using l by (simp only: print_def ll simp_thms if_False)
  have "step H d v st x =
     (let st1 = st\<lparr>ids := ids st @ [H (relpath (path_join (fst x) (fst (snd x))) d)],
                    documents := documents st @ [content],
                    metadatas := metadatas st
                      @ [[(''path'', relpath (path_join (fst x) (fst (snd x))) d)]]\<rparr>;
          st2 = (if v then print (log_line d x) st1 else st1)
      in if aborted st2 \<noteq> None then st2
         else if length (ids st2) \<ge> 50
         then st2\<lparr>ids := [], documents := [], metadatas := [],
                  coll := upsert (coll st2) (buffer st2)\<rparr>
         else st2)"
    using c s e
    by (simp only: step_def process_file_def file_id_def ll Let_def if_True if_False
        option.case sum.case)
  then show ?thesis
    using c by (auto simp: pr visited_record_def record_of_def buffer_def Let_def)
qed

lemma step_accepted_keep:
  "accepted x \<Longrightarrow> encodable d x \<Longrightarrow> aborted st = None \<Longrightarrow>
   buffer st = batch_of rs \<Longrightarrow> length rs < 49 \<Longrightarrow>
   buffer (step H d v st x) = batch_of (rs @ [visited_record H d x]) \<and>
   coll (step H d v st x) = coll st"
  by (auto simp: step_indexed Let_def buffer_def batch_of_def)

lemma step_accepted_flush:
  "accepted x \<Longrightarrow> encodable d x \<Longrightarrow> aborted st = None \<Longrightarrow>
   buffer st = batch_of rs \<Longrightarrow> length rs = 49 \<Longrightarrow>
   buffer (step H d v st x) = batch_of [] \<and>
   upsert_calls (coll (step H d v st x)) =
     upsert_calls (coll st) @ [batch_of (rs @ [visited_record H d x])]"
  by (auto simp: step_indexed Let_def buffer_def batch_of_def)

lemma step_accepted_aborted:
  "accepted x \<Longrightarrow> encodable d x \<Longrightarrow>
   aborted (step H d v st x) = aborted st \<and>
   stdout (step H d v st x) = stdout st @ (if v then [log_line d x] else [])"
  by (auto simp: step_indexed Let_def)

lemma step_goes:
  assumes "\<not> stops d v (strict_stdout st) x"
  shows "aborted (step H d v st x) = aborted st"
    and "stdout (step H d v st x) = stdout st @ (if v then [log_line d x] else [])"
proof -
  have "aborted (step H d v st x) = aborted st \<and>
        stdout (step H d v st x) = stdout st @ (if v then [log_line d x] else [])"
  proof (cases "accepted x")
    case True
    with assms have "encodable d x" by (simp add: stops_def raises_def)
    with True show ?thesis by (rule step_accepted_aborted)
  next
    case False
    from step_rejected_aborted[OF False assms] show ?thesis .
  qed
  then show "aborted (step H d v st x) = aborted st"
    and "stdout (step H d v st x) = stdout st @ (if v then [log_line d x] else [])"
    by simp_all
qed

section \<open>The loops\<close>

lemma run_over_Nil: "run_over H d v [] st = st"
  by (simp add: run_over_def handled_def)

lemma run_over_Cons:
  "run_over H d v (x # xs) st =
     (if stops d v (strict_stdout st) x then st\<lparr>aborted := Some UnicodeEncodeError\<rparr>
      else run_over H d v xs (step H d v st x))"
  by (simp add: run_over_def handled_def)

lemma run_over_aborted:
  "aborted st = None \<Longrightarrow>
   aborted (run_over H d v xs st) =
     (if list_ex (stops d v (strict_stdout st)) xs then Some UnicodeEncodeError else None)"
proof (induction xs arbitrary: st)
  case Nil
  then show ?case by (simp add: run_over_Nil)
next
  case (Cons x xs)
  show ?case
  proof (cases "stops d v (strict_stdout st) x")
    case True
    then show ?thesis by (simp add: run_over_Cons)
  next
    case False
    from step_goes(1)[OF False] Cons.prems have "aborted (step H d v st x) = None" by simp
    from Cons.IH[OF this] False show ?thesis by (simp add: run_over_Cons)
  qed
qed

lemma index_files_run:
  "aborted st = None \<Longrightarrow> index_files H d v rt fs st = run_over H d v (map (Pair rt) fs) st"
proof (induction fs arbitrary: st)
  case Nil
  show ?case by (simp add: run_over_Nil)
next
  case (Cons ent fs)
  have p: "process_file H d v rt ent st = step H d v st (rt, ent)" by (simp add: step_def)
  show ?case
  proof (cases "stops d v (strict_stdout st) (rt, ent)")
    case True
    from step_stops[OF True] show ?thesis by (simp add: p run_over_Cons True)
  next
    case False
    from step_goes(1)[OF False] Cons.prems have a: "aborted (step H d v st (rt, ent)) = None"
      by simp
    from Cons.IH[OF a] a False show ?thesis by (simp add: p run_over_Cons)
  qed
qed

lemma run_over_append:
  "aborted st = None \<Longrightarrow>
   run_over H d v (xs @ ys) st =
     (if aborted (run_over H d v xs st) \<noteq> None then run_over H d v xs st
      else run_over H d v ys (run_over H d v xs st))"
proof (induction xs arbitrary: st)
  case Nil
  then show ?case by (simp add: run_over_Nil)
next
  case (Cons x xs)
  show ?case
  proof (cases "stops d v (strict_stdout st) x")
    case True
    then show ?thesis by (simp add: run_over_Cons)
  next
    case False
    from step_goes(1)[OF False] Cons.prems have "aborted (step H d v st x) = None" by simp
    from Cons.IH[OF this] False show ?thesis by (simp add: run_over_Cons)
  qed
qed

lemma index_dirs_run:
  "aborted st = None \<Longrightarrow>
   index_dirs H d v ws st =
     run_over H d v (concat (map (\<lambda>(rootdir, fs). map (Pair rootdir) fs) ws)) st"
proof (induction ws arbitrary: st)
  case Nil
  show ?case by (simp add: run_over_Nil)
next
  case (Cons w ws)
  obtain rt fs where w: "w = (rt, fs)" by (cases w)
  let ?st1 = "run_over H d v (map (Pair rt) fs) st"
  have f: "index_files H d v rt fs st = ?st1" using Cons.prems by (rule index_files_run)
  show ?case
  proof (cases "aborted ?st1 = None")
    case True
    from Cons.IH[OF True] True show ?thesis
      by (simp add: w f run_over_append[OF Cons.prems])
  next
    case False
    then show ?thesis by (simp add: w f run_over_append[OF Cons.prems])
  qed
qed

lemma handled_goes: "x \<in> set (handled d v s xs) \<Longrightarrow> \<not> stops d v s x"
  unfolding handled_def by (rule set_takeWhileD [THEN conjunct2])

lemma handled_visited: "x \<in> set (handled d v s xs) \<Longrightarrow> x \<in> set xs"
  unfolding handled_def by (rule set_takeWhileD [THEN conjunct1])

lemma handled_all:
  "\<not> list_ex (stops d v s) xs \<Longrightarrow> handled d v s xs = xs"
  by (auto simp: handled_def list_ex_iff takeWhile_eq_all_conv)

lemma foldl_step_goes:
  "\<forall>x \<in> set xs. \<not> stops d v (strict_stdout st) x \<Longrightarrow>
   aborted (foldl (step H d v) st xs) = aborted st \<and>
   strict_stdout (foldl (step H d v) st xs) = strict_stdout st \<and>
   stdout (foldl (step H d v) st xs) = stdout st @ (if v then map (log_line d) xs else [])"
proof (induction xs arbitrary: st)
  case Nil
  show ?case by simp
next
  case (Cons x xs)
  from Cons.prems have g: "\<not> stops d v (strict_stdout st) x" by simp
  from Cons.prems have "\<forall>y \<in> set xs. \<not> stops d v (strict_stdout (step H d v st x)) y" by simp
  from Cons.IH[OF this] step_goes[OF g, of H] show ?case by simp
qed

lemma foldl_step_batches:
  "\<forall>x \<in> set xs. \<not> stops d v (strict_stdout st) x \<Longrightarrow> aborted st = None \<Longrightarrow>
   buffer st = batch_of rs \<Longrightarrow> length rs < 50 \<Longrightarrow>
   buffer (foldl (step H d v) st xs) =
     batch_of (leftover 50 (rs @ map (visited_record H d) (filter accepted xs))) \<and>
   upsert_calls (coll (foldl (step H d v) st xs)) =
     upsert_calls (coll st) @
     map batch_of (full_chunks 50 (rs @ map (visited_record H d) (filter accepted xs)))"
proof (induction xs arbitrary: st rs)
  case Nil
  then show ?case by (simp add: leftover_short full_chunks_short)
next
  case (Cons x xs)
  let ?st = "step H d v st x"
  from Cons.prems(1) have g: "\<not> stops d v (strict_stdout st) x" by simp
  from Cons.prems(1) have r: "\<forall>y \<in> set xs. \<not> stops d v (strict_stdout ?st) y" by simp
  from step_goes(1)[OF g] Cons.prems(2) have a: "aborted ?st = None" by simp
  show ?case
  proof (cases "accepted x")
    case False
    from step_rejected[OF False, of H d v st] Cons.prems
    have "buffer ?st = batch_of rs" and c: "coll ?st = coll st" by simp_all
    from Cons.IH[OF r a this(1) Cons.prems(4)] False c show ?thesis by simp
  next
    case True
    with g have e: "encodable d x" by (simp add: stops_def raises_def)
    show ?thesis
    proof (cases "length rs < 49")
      case l: True
      from step_accepted_keep[OF True e Cons.prems(2) Cons.prems(3) l, of H v]
      have b: "buffer ?st = batch_of (rs @ [visited_record H d x])" and c: "coll ?st = coll st"
        by simp_all
      have "length (rs @ [visited_record H d x]) < 50" using l by simp
      from Cons.IH[OF r a b this] True c show ?thesis by simp
    next
      case False
      with Cons.prems have l: "length rs = 49" by simp
      from step_accepted_flush[OF True e Cons.prems(2) Cons.prems(3) l, of H v]
      have b: "buffer ?st = batch_of []"
        and c: "upsert_calls (coll ?st) =
                  upsert_calls (coll st) @ [batch_of (rs @ [visited_record H d x])]"
        by simp_all
      have full: "full_chunks 50 ((rs @ [visited_record H d x]) @ ys) =
                    (rs @ [visited_record H d x]) # full_chunks 50 ys" for ys
        by (rule full_chunks_full) (simp_all add: l)
      have left: "leftover 50 ((rs @ [visited_record H d x]) @ ys) = leftover 50 ys" for ys
        by (rule leftover_full) (simp_all add: l)
      from Cons.IH[OF r a b] True c full left show ?thesis by simp
    qed
  qed
qed

section \<open>A whole indexing run\<close>

lemma ascii_str_nat: "ascii (str_nat n)"
proof -
  have "\<forall>c \<in> set ''0123456789''. (of_char c :: nat) < 128" by simp
  with str_nat_digits[of n] show ?thesis unfolding ascii_def by blast
qed

lemma ascii_append: "ascii (a @ b) = (ascii a \<and> ascii b)"
  by (auto simp: ascii_def)

lemma valid_summary_line: "valid_utf8 (summary_line k)"
proof -
  have "ascii (summary_line k)"
    unfolding summary_line_def ascii_append
    by (simp add: ascii_str_nat) (simp add: ascii_def COLLECTION_NAME_def)
  then show ?thesis by (rule valid_utf8_ascii)
qed

lemma print_summary_line:
  "print (summary_line k) st = st\<lparr>stdout := stdout st @ [summary_line k]\<rparr>"
  by (simp add: print_def valid_summary_line)

lemma buffer_updates [simp]:
  "buffer (st\<lparr>aborted := a\<rparr>) = buffer st"
  "buffer (st\<lparr>coll := c\<rparr>) = buffer st"
  "buffer (st\<lparr>stdout := l\<rparr>) = buffer st"
  by (simp_all add: buffer_def)

lemma walk_run:
  "walk_and_index H d v s t es =
     (let st1 = run_over H d v (visited d t)
                  \<lparr>ids = [], documents = [], metadatas = [], stdout = [],
                   strict_stdout = s, aborted = None, coll = get_collection es\<rparr>
      in if aborted st1 \<noteq> None then st1
         else (let st2 = (if ids st1 \<noteq> [] then st1\<lparr>coll := upsert (coll st1) (buffer st1)\<rparr>
                          else st1)
               in print (summary_line (count (coll st2))) st2))"
proof -
  have i: "index_dirs H d v (os_walk d t)
             \<lparr>ids = [], documents = [], metadatas = [], stdout = [],
              strict_stdout = s, aborted = None, coll = get_collection es\<rparr> =
           run_over H d v (visited d t)
             \<lparr>ids = [], documents = [], metadatas = [], stdout = [],
              strict_stdout = s, aborted = None, coll = get_collection es\<rparr>"
    unfolding visited_def by (rule index_dirs_run) simp
  show ?thesis
    by (simp only: walk_and_index_def Let_def summary_line_def i)
qed

text \<open>
  An indexing run is ended by an exception exactly when the loop body raises on a file
  the walk yields.
\<close>

lemma walk_aborted:
  "aborted (walk_and_index H d v s t es) =
     (if list_ex (stops d v s) (visited d t) then Some UnicodeEncodeError else None)"
proof -
  let ?st0 = "\<lparr>ids = [], documents = [], metadatas = [], stdout = [],
               strict_stdout = s, aborted = None, coll = get_collection es\<rparr>"
  have a: "aborted (run_over H d v (visited d t) ?st0) =
        (if list_ex (stops d v s) (visited d t) then Some UnicodeEncodeError else None)"
    using run_over_aborted[of ?st0 H d v "visited d t"] by simp
  show ?thesis
    unfolding walk_run Let_def using a by (simp add: print_summary_line)
qed

text \<open>
  The calls an indexing run makes on the store: one for each full batch of 50 among the
  records of the accepted files handled, and one for what is left of them when the run
  reaches its end.
\<close>

lemma walk_upsert_calls:
  "upsert_calls (coll (walk_and_index H d v s t es)) =
     map batch_of
       (full_chunks 50 (map (visited_record H d) (filter accepted (handled d v s (visited d t))))) @
     (if list_ex (stops d v s) (visited d t) \<or>
         leftover 50 (map (visited_record H d) (filter accepted (handled d v s (visited d t)))) = []
      then []
      else [batch_of (leftover 50
              (map (visited_record H d) (filter accepted (handled d v s (visited d t)))))])"
proof -
  let ?st0 = "\<lparr>ids = [], documents = [], metadatas = [], stdout = [],
               strict_stdout = s, aborted = None, coll = get_collection es\<rparr>"
  let ?hs = "handled d v s (visited d t)"
  let ?R = "map (visited_record H d) (filter accepted ?hs)"
  define F where "F = foldl (step H d v) ?st0 ?hs"
  have g: "\<forall>x \<in> set ?hs. \<not> stops d v (strict_stdout ?st0) x"
    by (auto dest: handled_goes)
  have b0: "buffer ?st0 = batch_of []" by (simp add: buffer_def batch_of_def)
  from foldl_step_batches[OF g _ b0, of H]
  have b: "buffer F = batch_of (leftover 50 ?R)"
    and c: "upsert_calls (coll F) = map batch_of (full_chunks 50 ?R)"
    unfolding F_def by (simp_all add: get_collection_def)
  from foldl_step_goes[OF g, of H] have a: "aborted F = None" unfolding F_def by simp
  from b have i: "(ids F = []) = (leftover 50 ?R = [])" by (simp add: buffer_def batch_of_def)
  have r: "run_over H d v (visited d t) ?st0 =
      (if list_ex (stops d v s) (visited d t) then F\<lparr>aborted := Some UnicodeEncodeError\<rparr> else F)"
    unfolding run_over_def F_def by simp
  show ?thesis
    unfolding walk_run Let_def r using a b c i by (simp add: print_summary_line)
qed


text \<open>
  The lines an indexing run prints: in verbose mode one for each file handled, and the
  summary when the run reaches its end.
\<close>

lemma walk_stdout:
  "stdout (walk_and_index H d v s t es) =
     (if v then map (log_line d) (handled d v s (visited d t)) else []) @
     (if list_ex (stops d v s) (visited d t) then []
      else [summary_line (count (coll (walk_and_index H d v s t es)))])"
proof -
  let ?st0 = "\<lparr>ids = [], documents = [], metadatas = [], stdout = [],
               strict_stdout = s, aborted = None, coll = get_collection es\<rparr>"
  let ?hs = "handled d v s (visited d t)"
  define F where "F = foldl (step H d v) ?st0 ?hs"
  have g: "\<forall>x \<in> set ?hs. \<not> stops d v (strict_stdout ?st0) x"
    by (auto dest: handled_goes)
  from foldl_step_goes[OF g, of H] have a: "aborted F = None"
    and o: "stdout F = (if v then map (log_line d) ?hs else [])"
    unfolding F_def by simp_all
  have r: "run_over H d v (visited d t) ?st0 =
      (if list_ex (stops d v s) (visited d t) then F\<lparr>aborted := Some UnicodeEncodeError\<rparr> else F)"
    unfolding run_over_def F_def by simp
  show ?thesis
    unfolding walk_run Let_def r using a o by (simp add: print_summary_line)
qed

text \<open>A run that reaches its end has handled every file the walk yields.\<close>

lemma walk_completed:
  "aborted (walk_and_index H d v s t es) = None \<Longrightarrow> handled d v s (visited d t) = visited d t"
  by (rule handled_all) (simp add: walk_aborted split: if_splits)


section \<open>Paths of ASCII names\<close>

lemma set_split_sep: "w \<in> set (split_sep s p) \<Longrightarrow> set w \<subseteq> set p"
proof (induction p arbitrary: w)
  case Nil
  then show ?case by simp
next
  case (Cons c cs)
  show ?case
  proof (cases "c = s")
    case True
    with Cons show ?thesis by auto
  next
    case False
    show ?thesis
    proof (cases "split_sep s cs")
      case Nil
      with False Cons.prems show ?thesis by simp
    next
      case (Cons u us)
      have u: "set u \<subseteq> set cs" by (rule Cons.IH) (simp add: Cons)
      have us: "\<And>x. x \<in> set us \<Longrightarrow> set x \<subseteq> set cs" by (rule Cons.IH) (simp add: Cons)
      from Cons False Cons.prems have "w = c # u \<or> w \<in> set us" by simp
      with u us show ?thesis by auto
    qed
  qed
qed

lemma set_norm_comps: "set (norm_comps acc cs) \<subseteq> set acc \<union> set cs"
proof (induction acc cs rule: norm_comps.induct)
  case (1 acc)
  show ?case by simp
next
  case (2 acc c cs)
  have "set (tl acc) \<subseteq> set acc" by (cases acc) auto
  with 2 show ?case by auto
qed

lemma set_sep_join: "set (sep_join cs) \<subseteq> \<Union> (set ` set cs) \<union> {CHR ''/''}"
  by (induction cs rule: sep_join.induct) auto

lemma set_abs_comps: "w \<in> set (abs_comps p) \<Longrightarrow> set w \<subseteq> set p"
  unfolding abs_comps_def using set_norm_comps[of "[]" "split_sep CHR ''/'' p"]
  by (auto dest: set_split_sep)

lemma set_relpath: "set (relpath p d) \<subseteq> set p \<union> {CHR ''.'', CHR ''/''}"
proof -
  let ?i = "common_prefix_len (abs_comps d) (abs_comps p)"
  let ?rel = "replicate (length (abs_comps d) - ?i) ''..'' @ drop ?i (abs_comps p)"
  have "set w \<subseteq> set p \<union> {CHR ''.'', CHR ''/''}" if "w \<in> set ?rel" for w
  proof -
    from that consider "w = ''..''" | "w \<in> set (drop ?i (abs_comps p))" by auto
    then show ?thesis
    proof cases
      case 1
      then show ?thesis by simp
    next
      case 2
      then have "w \<in> set (abs_comps p)" by (rule in_set_dropD)
      from set_abs_comps[OF this] show ?thesis by auto
    qed
  qed
  with set_sep_join[of ?rel] have "set (sep_join ?rel) \<subseteq> set p \<union> {CHR ''.'', CHR ''/''}"
    by blast
  then show ?thesis by (simp add: relpath_def Let_def)
qed

lemma set_path_join: "set (path_join a b) \<subseteq> set a \<union> set b \<union> {CHR ''/''}"
  by (auto simp: path_join_def)

lemma ascii_path_join: "ascii a \<Longrightarrow> ascii b \<Longrightarrow> ascii (path_join a b)"
  using set_path_join[of a b] by (auto simp: ascii_def)

lemma ascii_relpath: "ascii p \<Longrightarrow> ascii (relpath p d)"
  using set_relpath[of p d] by (auto simp: ascii_def)

text \<open>The loop body does not raise on a file whose path holds ASCII characters only.\<close>

lemma ascii_goes:
  assumes "ascii rt" "ascii n"
  shows "\<not> stops d v s (rt, n, f)"
proof -
  from assms have p: "ascii (path_join rt n)" by (rule ascii_path_join)
  then have r: "ascii (relpath (path_join rt n) d)" by (rule ascii_relpath)
  have a1: "ascii ''  skip  ''" and a2: "ascii '' (not utf-8)''" and a3: "ascii ''  index ''"
    by (simp_all add: ascii_def)
  have "ascii (log_line d (rt, n, f))"
    using p r a1 a2 a3 by (simp add: log_line_by_tests ascii_append del: append.simps)
  then have "valid_utf8 (log_line d (rt, n, f))" by (rule valid_utf8_ascii)
  moreover from r have "encodable d (rt, n, f)"
    by (simp add: encodable_def valid_utf8_ascii)
  ultimately show ?thesis by (simp add: stops_def raises_def)
qed

section \<open>Which files are indexed\<close>

lemma batch_records_batch_of [simp]: "batch_records (batch_of rs) = rs"
  by (induction rs) (auto simp: batch_records_def batch_of_def)

lemma concat_chunks: "0 < n \<Longrightarrow> concat (chunks n xs) = xs"
proof (induction n xs rule: chunks.induct)
  case (1 n xs)
  show ?case
  proof (cases "xs = []")
    case True
    then show ?thesis by simp
  next
    case False
    with 1 show ?thesis by (subst chunks.simps) simp
  qed
qed

lemma concat_batches: "concat (map batch_records (map batch_of xss)) = concat xss"
  by (induction xss) simp_all

lemma indexed_records_eq:
  "indexed_records H d v s t es =
     concat (full_chunks 50
       (map (visited_record H d) (filter accepted (handled d v s (visited d t))))) @
     (if list_ex (stops d v s) (visited d t) then []
      else leftover 50
        (map (visited_record H d) (filter accepted (handled d v s (visited d t)))))"
  unfolding indexed_records_def walk_upsert_calls
  by (simp add: concat_batches del: map_map)

lemma indexed_records_handled:
  assumes "r \<in> set (indexed_records H d v s t es)"
  shows "r \<in> set (map (visited_record H d) (filter accepted (handled d v s (visited d t))))"
proof -
  define R where "R = map (visited_record H d) (filter accepted (handled d v s (visited d t)))"
  have "set (concat (full_chunks 50 R) @ leftover 50 R) = set R"
    by (simp only: concat_full_chunks)
  then have u: "set (concat (full_chunks 50 R)) \<union> set (leftover 50 R) = set R"
    by (simp only: set_append)
  from assms have "r \<in> set (concat (full_chunks 50 R)) \<union> set (leftover 50 R)"
    unfolding indexed_records_eq R_def[symmetric] by (simp split: if_splits)
  with u show ?thesis unfolding R_def by blast
qed

lemma indexed_records_completed:
  assumes "\<not> list_ex (stops d v s) (visited d t)"
  shows "indexed_records H d v s t es = map (visited_record H d) (filter accepted (visited d t))"
proof -
  define R where "R = map (visited_record H d) (filter accepted (visited d t))"
  have "indexed_records H d v s t es = concat (full_chunks 50 R) @ leftover 50 R"
    unfolding indexed_records_eq handled_all[OF assms] R_def using assms by simp
  then show ?thesis unfolding R_def by (simp only: concat_full_chunks)
qed

lemma visited_eq_tree_files:
  "visited d t = map (locate d) (filter unpruned (tree_files t))"
proof (induction d t rule: os_walk.induct)
  case (1 rootdir ds fs)
  have sub: "concat (map (\<lambda>(r, fs). map (Pair r) fs) (os_walk (path_join rootdir (fst x)) (snd x))) =
        map (locate rootdir) (filter unpruned (map (\<lambda>pe. (fst x # fst pe, snd pe)) (tree_files (snd x))))"
    if "x \<in> set ds" "fst x \<notin> SKIP_DIRS" for x
  proof -
    from that have "x \<in> set (filter (\<lambda>d. fst d \<notin> SKIP_DIRS) ds)" by simp
    from "1.IH"[OF this] have "visited (path_join rootdir (fst x)) (snd x) =
        map (locate (path_join rootdir (fst x))) (filter unpruned (tree_files (snd x)))" .
    then show ?thesis using that(2)
      by (simp add: visited_def filter_map o_def unpruned_def locate_def)
  qed
  have pruned: "filter unpruned (map (\<lambda>pe. (fst x # fst pe, snd pe)) (tree_files (snd x))) = []"
    if "fst x \<in> SKIP_DIRS" for x
    using that by (simp add: filter_map o_def unpruned_def)
  have rec: "concat (map (\<lambda>(r, fs). map (Pair r) fs)
        (concat (map (\<lambda>d. os_walk (path_join rootdir (fst d)) (snd d)) (filter (\<lambda>d. fst d \<notin> SKIP_DIRS) ds)))) =
      map (locate rootdir) (filter unpruned
        (concat (map (\<lambda>d. map (\<lambda>pe. (fst d # fst pe, snd pe)) (tree_files (snd d))) ds)))"
    using sub pruned
  proof (induction ds)
    case Nil
    show ?case by simp
  next
    case (Cons x ds)
    have ih: "concat (map (\<lambda>(r, fs). map (Pair r) fs)
        (concat (map (\<lambda>d. os_walk (path_join rootdir (fst d)) (snd d)) (filter (\<lambda>d. fst d \<notin> SKIP_DIRS) ds)))) =
      map (locate rootdir) (filter unpruned
        (concat (map (\<lambda>d. map (\<lambda>pe. (fst d # fst pe, snd pe)) (tree_files (snd d))) ds)))"
      by (rule Cons.IH) (simp_all add: Cons.prems)
    show ?case
    proof (cases "fst x \<in> SKIP_DIRS")
      case True
      with ih Cons.prems(2)[OF True] show ?thesis by simp
    next
      case False
      with ih Cons.prems(1)[of x] show ?thesis by simp
    qed
  qed
  have top: "map (Pair rootdir) fs = map (locate rootdir) (filter unpruned (map (\<lambda>e. ([], e)) fs))"
    by (simp add: filter_map o_def unpruned_def locate_def)
  show ?case
    unfolding visited_def using rec top by simp
qed

lemma basename_join:
  assumes "CHR ''/'' \<notin> set n" "n \<noteq> []"
  shows "basename (path_join rt n) = n"
proof -
  from assms have h: "hd n \<noteq> CHR ''/''" by (cases n) auto
  have tw: "takeWhile (\<lambda>c. c \<noteq> CHR ''/'') (rev n @ ys) = rev n @ takeWhile (\<lambda>c. c \<noteq> CHR ''/'') ys" for ys
    by (rule takeWhile_append2) (use assms(1) in auto)
  consider "rt = []" | "rt \<noteq> []" "last rt = CHR ''/''" | "rt \<noteq> []" "last rt \<noteq> CHR ''/''" by blast
  then show ?thesis
  proof cases
    case 1
    have "path_join rt n = n" using 1 h assms(2) by (simp add: path_join_def)
    moreover have "takeWhile (\<lambda>c. c \<noteq> CHR ''/'') (rev n) = rev n"
      using assms(1) by (auto simp: takeWhile_eq_all_conv)
    ultimately show ?thesis by (simp only: basename_def rev_rev_ident)
  next
    case 2
    then obtain r where rt: "rt = r @ ''/''" by (cases rt rule: rev_cases) auto
    have "path_join rt n = rt @ n" using 2 h assms(2) by (simp add: path_join_def)
    then show ?thesis using tw[of "rev rt"] rt by (simp add: basename_def)
  next
    case 3
    have "path_join rt n = rt @ ''/'' @ n" using 3 h assms(2) by (simp add: path_join_def)
    then show ?thesis using tw[of "CHR ''/'' # rev rt"] by (simp add: basename_def)
  qed
qed

lemma lower_binary: "e \<in> BINARY_EXTENSIONS \<Longrightarrow> lower e = e"
  unfolding BINARY_EXTENSIONS_def by (auto simp: lower_char_def)

lemma indexed_record_source:
  assumes "r \<in> set (indexed_records H d v s t es)"
  shows "\<exists>p n f content. (p, n, f) \<in> set (tree_files t) \<and> list_all (\<lambda>x. x \<notin> SKIP_DIRS) p \<and>
           \<not> should_skip_file (entry_path d p n) f \<and> read_text f = Some content \<and>
           r = record_of H d (entry_path d p n) content"
proof -
  from indexed_records_handled[OF assms] obtain x where
    x: "x \<in> set (handled d v s (visited d t))" "accepted x" "r = visited_record H d x"
    by auto
  from handled_visited[OF x(1)] have "x \<in> set (visited d t)" .
  then obtain e where e: "e \<in> set (tree_files t)" "unpruned e" "x = locate d e"
    by (auto simp: visited_eq_tree_files)
  obtain p n f where pnf: "e = (p, n, f)" by (cases e)
  from x(2) e(3) pnf obtain content where c: "read_text f = Some content"
    by (auto simp: accepted_def locate_def)
  from e x pnf c show ?thesis
    by (auto simp: accepted_def locate_def unpruned_def visited_record_def entry_path_def)
qed

section \<open>The example tree\<close>

lemma example_tree_files:
  "tree_files example_tree =
     [([], ''a.txt'', \<lparr>getsize = Some 10, read_utf8 = Some ''0123456789''\<rparr>),
      ([], ''x.PNG'', \<lparr>getsize = Some 10, read_utf8 = Some ''0123456789''\<rparr>),
      ([], ''empty.txt'', \<lparr>getsize = Some 0, read_utf8 = Some ''''\<rparr>),
      ([], ''big.txt'', \<lparr>getsize = Some 1000001, read_utf8 = Some ''big''\<rparr>),
      ([], ''limit.txt'', \<lparr>getsize = Some 1000000, read_utf8 = Some ''limit''\<rparr>),
      ([], ''gone.txt'', \<lparr>getsize = None, read_utf8 = None\<rparr>),
      ([], ''latin1.txt'', \<lparr>getsize = Some 4, read_utf8 = None\<rparr>),
      ([''sub''], ''b.md'', \<lparr>getsize = Some 3, read_utf8 = Some ''abc''\<rparr>),
      ([''.git''], ''config'', \<lparr>getsize = Some 4, read_utf8 = Some ''core''\<rparr>),
      ([''node_modules'', ''pkg''], ''index.js'', \<lparr>getsize = Some 2, read_utf8 = Some ''js''\<rparr>)]"
  by (simp add: example_tree_def)

lemma example_visited:
  "visited ''/d'' example_tree =
     [(''/d'', ''a.txt'', \<lparr>getsize = Some 10, read_utf8 = Some ''0123456789''\<rparr>),
      (''/d'', ''x.PNG'', \<lparr>getsize = Some 10, read_utf8 = Some ''0123456789''\<rparr>),
      (''/d'', ''empty.txt'', \<lparr>getsize = Some 0, read_utf8 = Some ''''\<rparr>),
      (''/d'', ''big.txt'', \<lparr>getsize = Some 1000001, read_utf8 = Some ''big''\<rparr>),
      (''/d'', ''limit.txt'', \<lparr>getsize = Some 1000000, read_utf8 = Some ''limit''\<rparr>),
      (''/d'', ''gone.txt'', \<lparr>getsize = None, read_utf8 = None\<rparr>),
      (''/d'', ''latin1.txt'', \<lparr>getsize = Some 4, read_utf8 = None\<rparr>),
      (''/d/sub'', ''b.md'', \<lparr>getsize = Some 3, read_utf8 = Some ''abc''\<rparr>)]"
  by (simp add: example_tree_def visited_def SKIP_DIRS_def DEFAULT_DB_DIR_def path_join_def)

lemma example_goes: "\<not> list_ex (stops ''/d'' v s) (visited ''/d'' example_tree)"
  unfolding example_visited by (simp add: ascii_goes ascii_def)

lemma example_indexed:
  "indexed_records H ''/d'' v s example_tree es =
     [(H ''a.txt'', ''0123456789'', [(''path'', ''a.txt'')]),
      (H ''limit.txt'', ''limit'', [(''path'', ''limit.txt'')]),
      (H ''sub/b.md'', ''abc'', [(''path'', ''sub/b.md'')])]"
  unfolding indexed_records_completed[OF example_goes] example_visited
  by (simp add: accepted_def should_skip_file_def read_text_def visited_record_def record_of_def
      path_join_def splitext_ext_def basename_def lower_char_def
      BINARY_EXTENSIONS_def MAX_FILE_SIZE_def relpath_def abs_comps_def)

section \<open>Claims on the walker\<close>

text \<open>
  Claim C1. The id of every record handed to the store is the SHA-256 hex digest of the
  record's relative path, whatever the file holds: records of any two runs (any tree,
  any contents, any directory) that carry the same relative path carry the same id.
\<close>

theorem file_id_from_relative_path_only:
  assumes "(i, doc, m) \<in> set (indexed_records H d v s t es)"
    and "(i', doc', m') \<in> set (indexed_records H d' v' s' t' es')"
  shows "(\<exists>p n f. (p, n, f) \<in> set (tree_files t) \<and> read_text f = Some doc \<and>
            m = [(''path'', relpath (entry_path d p n) d)] \<and>
            i = H (relpath (entry_path d p n) d)) \<and>
         (map_of m ''path'' = map_of m' ''path'' \<longrightarrow> i = i')"
proof -
  from indexed_record_source[OF assms(1)] obtain p n f where
    1: "(p, n, f) \<in> set (tree_files t)" "read_text f = Some doc"
       "m = [(''path'', relpath (entry_path d p n) d)]" "i = H (relpath (entry_path d p n) d)"
    by (auto simp: record_of_def )
  from indexed_record_source[OF assms(2)] obtain p' n' where
    2: "m' = [(''path'', relpath (entry_path d' p' n') d')]" "i' = H (relpath (entry_path d' p' n') d')"
    by (auto simp: record_of_def )
  from 1 2 show ?thesis by auto
qed

theorem file_id_from_relative_path_only_witness:
  "\<forall>H. (H ''a.txt'', ''0123456789'', [(''path'', ''a.txt'')]) \<in> set (indexed_records H ''/d'' False True example_tree []) \<and>
       (H ''a.txt'', ''other text'', [(''path'', ''a.txt'')]) \<in>
         set (indexed_records H ''/srv/data'' True True
                (Dir [] [(''a.txt'', \<lparr>getsize = Some 10, read_utf8 = Some ''other text''\<rparr>)]) []) \<and>
       (\<exists>p n f. (p, n, f) \<in> set (tree_files example_tree) \<and> read_text f = Some ''0123456789'' \<and>
            [(''path'', ''a.txt'')] = [(''path'', relpath (entry_path ''/d'' p n) ''/d'')] \<and>
            H ''a.txt'' = H (relpath (entry_path ''/d'' p n) ''/d''))"
proof
  fix H
  have 1: "(H ''a.txt'', ''0123456789'', [(''path'', ''a.txt'')]) \<in> set (indexed_records H ''/d'' False True example_tree [])"
    by (simp add: example_indexed)
  have 2: "(H ''a.txt'', ''other text'', [(''path'', ''a.txt'')]) \<in>
         set (indexed_records H ''/srv/data'' True True
                (Dir [] [(''a.txt'', \<lparr>getsize = Some 10, read_utf8 = Some ''other text''\<rparr>)]) [])"
  proof -
    have g: "\<not> list_ex (stops ''/srv/data'' True True)
        (visited ''/srv/data''
           (Dir [] [(''a.txt'', \<lparr>getsize = Some 10, read_utf8 = Some ''other text''\<rparr>)]))"
      by (simp add: visited_def ascii_goes ascii_def)
    show ?thesis
      unfolding indexed_records_completed[OF g]
      by (simp add: visited_def accepted_def should_skip_file_def read_text_def visited_record_def
          record_of_def path_join_def splitext_ext_def basename_def lower_char_def
          BINARY_EXTENSIONS_def MAX_FILE_SIZE_def relpath_def abs_comps_def)
  qed
  from file_id_from_relative_path_only[OF 1 2] 1 2
  show "(H ''a.txt'', ''0123456789'', [(''path'', ''a.txt'')]) \<in> set (indexed_records H ''/d'' False True example_tree []) \<and>
       (H ''a.txt'', ''other text'', [(''path'', ''a.txt'')]) \<in>
         set (indexed_records H ''/srv/data'' True True
                (Dir [] [(''a.txt'', \<lparr>getsize = Some 10, read_utf8 = Some ''other text''\<rparr>)]) []) \<and>
       (\<exists>p n f. (p, n, f) \<in> set (tree_files example_tree) \<and> read_text f = Some ''0123456789'' \<and>
            [(''path'', ''a.txt'')] = [(''path'', relpath (entry_path ''/d'' p n) ''/d'')] \<and>
            H ''a.txt'' = H (relpath (entry_path ''/d'' p n) ''/d''))"
    by blast
qed

lemma process_file_skipped:
  "should_skip_file (path_join rt n) f \<Longrightarrow>
   process_file H d v rt (n, f) st = (if v then print (''  skip  '' @ path_join rt n) st else st)"
  by (simp add: process_file_def Let_def)

text \<open>
  Claim C4. A file whose extension is in the binary extension set is never indexed: the
  loop body leaves the buffers and the store as they were whatever the file holds (it is
  not read), and every record handed to the store comes from a file of the tree whose
  extension is outside the set.
\<close>

theorem binary_extension_never_indexed:
  "(splitext_ext (path_join rt n) \<in> BINARY_EXTENSIONS \<longrightarrow>
      process_file H d v rt (n, f) st = (if v then print (''  skip  '' @ path_join rt n) st else st)) \<and>
   (r \<in> set (indexed_records H d v s t es) \<longrightarrow>
      (\<exists>p n f content. (p, n, f) \<in> set (tree_files t) \<and> read_text f = Some content \<and>
          r = record_of H d (entry_path d p n) content \<and>
          splitext_ext (entry_path d p n) \<notin> BINARY_EXTENSIONS))"
proof (intro conjI impI)
  assume "splitext_ext (path_join rt n) \<in> BINARY_EXTENSIONS"
  then have "should_skip_file (path_join rt n) f"
    by (simp add: should_skip_file_def lower_binary)
  then show "process_file H d v rt (n, f) st = (if v then print (''  skip  '' @ path_join rt n) st else st)"
    by (rule process_file_skipped)
next
  assume "r \<in> set (indexed_records H d v s t es)"
  from indexed_record_source[OF this] obtain p n f content where
    s: "(p, n, f) \<in> set (tree_files t)" "\<not> should_skip_file (entry_path d p n) f"
       "read_text f = Some content" "r = record_of H d (entry_path d p n) content"
    by blast
  from s(2) have "splitext_ext (entry_path d p n) \<notin> BINARY_EXTENSIONS"
    using lower_binary[of "splitext_ext (entry_path d p n)"]
    by (auto simp: should_skip_file_def split: if_splits)
  with s show "\<exists>p n f content. (p, n, f) \<in> set (tree_files t) \<and> read_text f = Some content \<and>
          r = record_of H d (entry_path d p n) content \<and>
          splitext_ext (entry_path d p n) \<notin> BINARY_EXTENSIONS"
    by blast
qed

lemma example_png: "splitext_ext (path_join ''/d'' ''x.png'') = ''.png''"
  by (simp add: path_join_def splitext_ext_def basename_def)

theorem binary_extension_never_indexed_witness:
  "\<forall>H. splitext_ext (path_join ''/d'' ''x.png'') \<in> BINARY_EXTENSIONS \<and>
       process_file H ''/d'' True ''/d'' (''x.png'', \<lparr>getsize = Some 10, read_utf8 = Some ''0123456789''\<rparr>)
           \<lparr>ids = [], documents = [], metadatas = [], stdout = [], strict_stdout = True, aborted = None, coll = get_collection []\<rparr> =
         \<lparr>ids = [], documents = [], metadatas = [], stdout = [''  skip  /d/x.png''], strict_stdout = True, aborted = None, coll = get_collection []\<rparr> \<and>
       (H ''sub/b.md'', ''abc'', [(''path'', ''sub/b.md'')]) \<in> set (indexed_records H ''/d'' True True example_tree []) \<and>
       (\<exists>p n f content. (p, n, f) \<in> set (tree_files example_tree) \<and> read_text f = Some content \<and>
          (H ''sub/b.md'', ''abc'', [(''path'', ''sub/b.md'')]) = record_of H ''/d'' (entry_path ''/d'' p n) content \<and>
          splitext_ext (entry_path ''/d'' p n) \<notin> BINARY_EXTENSIONS)"
proof
  fix H
  have 1: "splitext_ext (path_join ''/d'' ''x.png'') \<in> BINARY_EXTENSIONS"
    by (simp add: example_png BINARY_EXTENSIONS_def)
  have 2: "(H ''sub/b.md'', ''abc'', [(''path'', ''sub/b.md'')]) \<in> set (indexed_records H ''/d'' True True example_tree [])"
    by (simp add: example_indexed)
  have 3: "path_join ''/d'' ''x.png'' = ''/d/x.png''" by (simp add: path_join_def)
  from binary_extension_never_indexed[where rt = "''/d''" and n = "''x.png''" and H = H and d = "''/d''"
      and v = True and f = "\<lparr>getsize = Some 10, read_utf8 = Some ''0123456789''\<rparr>"
      and st = "\<lparr>ids = [], documents = [], metadatas = [], stdout = [], strict_stdout = True, aborted = None, coll = get_collection []\<rparr>"
      and r = "(H ''sub/b.md'', ''abc'', [(''path'', ''sub/b.md'')])" and s = True and t = example_tree and es = "[]"]
    1 2 example_indexed[of H True True "[]"]
  show "splitext_ext (path_join ''/d'' ''x.png'') \<in> BINARY_EXTENSIONS \<and>
       process_file H ''/d'' True ''/d'' (''x.png'', \<lparr>getsize = Some 10, read_utf8 = Some ''0123456789''\<rparr>)
           \<lparr>ids = [], documents = [], metadatas = [], stdout = [], strict_stdout = True, aborted = None, coll = get_collection []\<rparr> =
         \<lparr>ids = [], documents = [], metadatas = [], stdout = [''  skip  /d/x.png''], strict_stdout = True, aborted = None, coll = get_collection []\<rparr> \<and>
       (H ''sub/b.md'', ''abc'', [(''path'', ''sub/b.md'')]) \<in> set (indexed_records H ''/d'' True True example_tree []) \<and>
       (\<exists>p n f content. (p, n, f) \<in> set (tree_files example_tree) \<and> read_text f = Some content \<and>
          (H ''sub/b.md'', ''abc'', [(''path'', ''sub/b.md'')]) = record_of H ''/d'' (entry_path ''/d'' p n) content \<and>
          splitext_ext (entry_path ''/d'' p n) \<notin> BINARY_EXTENSIONS)"
    by (simp add: 3 print_def valid_utf8_ascii ascii_def)
qed

text \<open>
  Claim C9. The extension test is case-insensitive: the extension is lowercased before
  the membership test, so a file whose lowercased extension is in the set is skipped
  without being read, no record handed to the store comes from such a file, and a file
  named with \<open>.PNG\<close> is skipped under every directory.
\<close>

theorem extension_test_case_insensitive:
  "(lower (splitext_ext (path_join rt n)) \<in> BINARY_EXTENSIONS \<longrightarrow>
      should_skip_file (path_join rt n) f \<and>
      process_file H d v rt (n, f) st = (if v then print (''  skip  '' @ path_join rt n) st else st)) \<and>
   (r \<in> set (indexed_records H d v s t es) \<longrightarrow>
      (\<exists>p n f content. (p, n, f) \<in> set (tree_files t) \<and> read_text f = Some content \<and>
          r = record_of H d (entry_path d p n) content \<and>
          lower (splitext_ext (entry_path d p n)) \<notin> BINARY_EXTENSIONS)) \<and>
   should_skip_file (path_join rt ''photo.PNG'') f"
proof (intro conjI impI)
  assume "lower (splitext_ext (path_join rt n)) \<in> BINARY_EXTENSIONS"
  then show s: "should_skip_file (path_join rt n) f"
    by (simp add: should_skip_file_def)
  then show "process_file H d v rt (n, f) st = (if v then print (''  skip  '' @ path_join rt n) st else st)"
    by (rule process_file_skipped)
next
  assume "r \<in> set (indexed_records H d v s t es)"
  from indexed_record_source[OF this] obtain p n f content where
    s: "(p, n, f) \<in> set (tree_files t)" "\<not> should_skip_file (entry_path d p n) f"
       "read_text f = Some content" "r = record_of H d (entry_path d p n) content"
    by blast
  from s(2) have "lower (splitext_ext (entry_path d p n)) \<notin> BINARY_EXTENSIONS"
    by (auto simp: should_skip_file_def split: if_splits)
  with s show "\<exists>p n f content. (p, n, f) \<in> set (tree_files t) \<and> read_text f = Some content \<and>
          r = record_of H d (entry_path d p n) content \<and>
          lower (splitext_ext (entry_path d p n)) \<notin> BINARY_EXTENSIONS"
    by blast
next
  have "basename (path_join rt ''photo.PNG'') = ''photo.PNG''"
    by (rule basename_join) simp_all
  then have "lower (splitext_ext (path_join rt ''photo.PNG'')) = ''.png''"
    by (simp add: splitext_ext_def lower_char_def)
  then show "should_skip_file (path_join rt ''photo.PNG'') f"
    by (simp add: should_skip_file_def BINARY_EXTENSIONS_def)
qed

theorem extension_test_case_insensitive_witness:
  "\<forall>H. lower (splitext_ext (path_join ''/d'' ''x.PNG'')) \<in> BINARY_EXTENSIONS \<and>
       process_file H ''/d'' True ''/d'' (''x.PNG'', \<lparr>getsize = Some 10, read_utf8 = Some ''0123456789''\<rparr>)
           \<lparr>ids = [], documents = [], metadatas = [], stdout = [], strict_stdout = True, aborted = None, coll = get_collection []\<rparr> =
         \<lparr>ids = [], documents = [], metadatas = [], stdout = [''  skip  /d/x.PNG''], strict_stdout = True, aborted = None, coll = get_collection []\<rparr> \<and>
       (H ''a.txt'', ''0123456789'', [(''path'', ''a.txt'')]) \<in> set (indexed_records H ''/d'' True True example_tree []) \<and>
       (\<exists>p n f content. (p, n, f) \<in> set (tree_files example_tree) \<and> read_text f = Some content \<and>
          (H ''a.txt'', ''0123456789'', [(''path'', ''a.txt'')]) = record_of H ''/d'' (entry_path ''/d'' p n) content \<and>
          lower (splitext_ext (entry_path ''/d'' p n)) \<notin> BINARY_EXTENSIONS)"
proof
  fix H
  have 1: "lower (splitext_ext (path_join ''/d'' ''x.PNG'')) \<in> BINARY_EXTENSIONS"
    by (simp add: path_join_def splitext_ext_def basename_def lower_char_def BINARY_EXTENSIONS_def)
  have 2: "(H ''a.txt'', ''0123456789'', [(''path'', ''a.txt'')]) \<in> set (indexed_records H ''/d'' True True example_tree [])"
    by (simp add: example_indexed)
  have 3: "path_join ''/d'' ''x.PNG'' = ''/d/x.PNG''" by (simp add: path_join_def)
  from extension_test_case_insensitive[where rt = "''/d''" and n = "''x.PNG''" and H = H and d = "''/d''"
      and v = True and f = "\<lparr>getsize = Some 10, read_utf8 = Some ''0123456789''\<rparr>"
      and st = "\<lparr>ids = [], documents = [], metadatas = [], stdout = [], strict_stdout = True, aborted = None, coll = get_collection []\<rparr>"
      and r = "(H ''a.txt'', ''0123456789'', [(''path'', ''a.txt'')])" and s = True and t = example_tree and es = "[]"]
    1 2
  show "lower (splitext_ext (path_join ''/d'' ''x.PNG'')) \<in> BINARY_EXTENSIONS \<and>
       process_file H ''/d'' True ''/d'' (''x.PNG'', \<lparr>getsize = Some 10, read_utf8 = Some ''0123456789''\<rparr>)
           \<lparr>ids = [], documents = [], metadatas = [], stdout = [], strict_stdout = True, aborted = None, coll = get_collection []\<rparr> =
         \<lparr>ids = [], documents = [], metadatas = [], stdout = [''  skip  /d/x.PNG''], strict_stdout = True, aborted = None, coll = get_collection []\<rparr> \<and>
       (H ''a.txt'', ''0123456789'', [(''path'', ''a.txt'')]) \<in> set (indexed_records H ''/d'' True True example_tree []) \<and>
       (\<exists>p n f content. (p, n, f) \<in> set (tree_files example_tree) \<and> read_text f = Some content \<and>
          (H ''a.txt'', ''0123456789'', [(''path'', ''a.txt'')]) = record_of H ''/d'' (entry_path ''/d'' p n) content \<and>
          lower (splitext_ext (entry_path ''/d'' p n)) \<notin> BINARY_EXTENSIONS)"
    by (simp add: 3 print_def valid_utf8_ascii ascii_def)
qed

text \<open>
  Claim C5. A file of size 0 or of more than 1,000,000 bytes is never indexed: the loop
  body skips it without reading it, and every record handed to the store comes from a
  file of the tree whose size is between 1 and 1,000,000 bytes. A file of exactly
  1,000,000 bytes passes the size test (only its extension can have it skipped).
\<close>

theorem size_filter:
  "(getsize f = Some sz \<and> (sz = 0 \<or> sz > 1000000) \<longrightarrow>
      process_file H d v rt (n, f) st = (if v then print (''  skip  '' @ path_join rt n) st else st)) \<and>
   (r \<in> set (indexed_records H d v s t es) \<longrightarrow>
      (\<exists>p n f content sz. (p, n, f) \<in> set (tree_files t) \<and> read_text f = Some content \<and>
          r = record_of H d (entry_path d p n) content \<and>
          getsize f = Some sz \<and> 0 < sz \<and> sz \<le> 1000000)) \<and>
   (getsize f = Some 1000000 \<longrightarrow>
      should_skip_file filepath f = (lower (splitext_ext filepath) \<in> BINARY_EXTENSIONS))"
proof (intro conjI impI)
  assume "getsize f = Some sz \<and> (sz = 0 \<or> sz > 1000000)"
  then have "should_skip_file (path_join rt n) f"
    by (auto simp: should_skip_file_def MAX_FILE_SIZE_def)
  then show "process_file H d v rt (n, f) st = (if v then print (''  skip  '' @ path_join rt n) st else st)"
    by (rule process_file_skipped)
next
  assume "r \<in> set (indexed_records H d v s t es)"
  from indexed_record_source[OF this] obtain p n f content where
    s: "(p, n, f) \<in> set (tree_files t)" "\<not> should_skip_file (entry_path d p n) f"
       "read_text f = Some content" "r = record_of H d (entry_path d p n) content"
    by blast
  from s(2) obtain sz where "getsize f = Some sz" "0 < sz" "sz \<le> 1000000"
    by (auto simp: should_skip_file_def MAX_FILE_SIZE_def split: if_splits option.splits)
  with s show "\<exists>p n f content sz. (p, n, f) \<in> set (tree_files t) \<and> read_text f = Some content \<and>
          r = record_of H d (entry_path d p n) content \<and>
          getsize f = Some sz \<and> 0 < sz \<and> sz \<le> 1000000"
    by blast
next
  assume "getsize f = Some 1000000"
  then show "should_skip_file filepath f = (lower (splitext_ext filepath) \<in> BINARY_EXTENSIONS)"
    by (simp add: should_skip_file_def MAX_FILE_SIZE_def)
qed

theorem size_filter_witness:
  "\<forall>H. process_file H ''/d'' True ''/d'' (''big.txt'', \<lparr>getsize = Some 1000001, read_utf8 = Some ''big''\<rparr>)
           \<lparr>ids = [], documents = [], metadatas = [], stdout = [], strict_stdout = True, aborted = None, coll = get_collection []\<rparr> =
         \<lparr>ids = [], documents = [], metadatas = [], stdout = [''  skip  /d/big.txt''], strict_stdout = True, aborted = None, coll = get_collection []\<rparr> \<and>
       process_file H ''/d'' False ''/d'' (''empty.txt'', \<lparr>getsize = Some 0, read_utf8 = Some []\<rparr>)
           \<lparr>ids = [], documents = [], metadatas = [], stdout = [], strict_stdout = True, aborted = None, coll = get_collection []\<rparr> =
         \<lparr>ids = [], documents = [], metadatas = [], stdout = [], strict_stdout = True, aborted = None, coll = get_collection []\<rparr> \<and>
       (H ''limit.txt'', ''limit'', [(''path'', ''limit.txt'')]) \<in> set (indexed_records H ''/d'' True True example_tree []) \<and>
       (\<exists>p n f content sz. (p, n, f) \<in> set (tree_files example_tree) \<and> read_text f = Some content \<and>
          (H ''limit.txt'', ''limit'', [(''path'', ''limit.txt'')]) = record_of H ''/d'' (entry_path ''/d'' p n) content \<and>
          getsize f = Some sz \<and> 0 < sz \<and> sz \<le> 1000000) \<and>
       \<not> should_skip_file ''/d/limit.txt'' \<lparr>getsize = Some 1000000, read_utf8 = Some ''limit''\<rparr>"
proof
  fix H :: "string \<Rightarrow> string"
  let ?st = "\<lparr>ids = [], documents = [], metadatas = [], stdout = [], strict_stdout = True, aborted = None, coll = get_collection []\<rparr>"
  let ?r = "(H ''limit.txt'', ''limit'', [(''path'', ''limit.txt'')])"
  have 2: "?r \<in> set (indexed_records H ''/d'' True True example_tree [])"
    by (simp add: example_indexed)
  have 3: "path_join ''/d'' ''big.txt'' = ''/d/big.txt''" by (simp add: path_join_def)
  have 4: "lower (splitext_ext ''/d/limit.txt'') \<notin> BINARY_EXTENSIONS"
    by (simp add: splitext_ext_def basename_def lower_char_def BINARY_EXTENSIONS_def)
  note a = size_filter[where f = "\<lparr>getsize = Some 1000001, read_utf8 = Some ''big''\<rparr>" and sz = 1000001
      and H = H and d = "''/d''" and v = True and rt = "''/d''" and n = "''big.txt''" and st = ?st
      and r = ?r and s = True and t = example_tree and es = "[]"]
  note b = size_filter[where f = "\<lparr>getsize = Some 0, read_utf8 = Some []\<rparr>" and sz = 0
      and H = H and d = "''/d''" and v = False and rt = "''/d''" and n = "''empty.txt''" and st = ?st]
  note c = size_filter[where f = "\<lparr>getsize = Some 1000000, read_utf8 = Some ''limit''\<rparr>"
      and filepath = "''/d/limit.txt''"]
  from a b c 2 4
  show "process_file H ''/d'' True ''/d'' (''big.txt'', \<lparr>getsize = Some 1000001, read_utf8 = Some ''big''\<rparr>) ?st =
         \<lparr>ids = [], documents = [], metadatas = [], stdout = [''  skip  /d/big.txt''], strict_stdout = True, aborted = None, coll = get_collection []\<rparr> \<and>
       process_file H ''/d'' False ''/d'' (''empty.txt'', \<lparr>getsize = Some 0, read_utf8 = Some []\<rparr>) ?st = ?st \<and>
       ?r \<in> set (indexed_records H ''/d'' True True example_tree []) \<and>
       (\<exists>p n f content sz. (p, n, f) \<in> set (tree_files example_tree) \<and> read_text f = Some content \<and>
          ?r = record_of H ''/d'' (entry_path ''/d'' p n) content \<and>
          getsize f = Some sz \<and> 0 < sz \<and> sz \<le> 1000000) \<and>
       \<not> should_skip_file ''/d/limit.txt'' \<lparr>getsize = Some 1000000, read_utf8 = Some ''limit''\<rparr>"
    by (simp add: 3 print_def valid_utf8_ascii ascii_def)
qed

lemma os_walk_pruned:
  "name \<in> SKIP_DIRS \<Longrightarrow>
   os_walk rt (Dir (dsa @ (name, sub) # dsb) fs) = os_walk rt (Dir (dsa @ dsb) fs)"
  by simp

text \<open>
  Claim C6, as stated, fails for the directory the walk starts from: its name is never
  tested, so when the tool is run on a directory called \<open>node_modules\<close> the files
  below it are indexed.
\<close>

theorem root_directory_not_pruned:
  "basename ''/home/u/node_modules'' \<in> SKIP_DIRS \<and>
   indexed_records id ''/home/u/node_modules'' False True
     (Dir [] [(''index.js'', \<lparr>getsize = Some 2, read_utf8 = Some ''js''\<rparr>)]) [] =
   [(''index.js'', ''js'', [(''path'', ''index.js'')])]"
proof -
  have "basename ''/home/u/node_modules'' \<in> SKIP_DIRS"
    by (simp add: basename_def SKIP_DIRS_def)
  moreover have "indexed_records id ''/home/u/node_modules'' False True
     (Dir [] [(''index.js'', \<lparr>getsize = Some 2, read_utf8 = Some ''js''\<rparr>)]) [] =
   [(''index.js'', ''js'', [(''path'', ''index.js'')])]"
  proof -
    have g: "\<not> list_ex (stops ''/home/u/node_modules'' False True)
        (visited ''/home/u/node_modules''
           (Dir [] [(''index.js'', \<lparr>getsize = Some 2, read_utf8 = Some ''js''\<rparr>)]))"
      by (simp add: visited_def ascii_goes ascii_def)
    show ?thesis
      unfolding indexed_records_completed[OF g]
      by (simp add: visited_def accepted_def should_skip_file_def read_text_def visited_record_def
          record_of_def path_join_def splitext_ext_def basename_def
          lower_char_def BINARY_EXTENSIONS_def MAX_FILE_SIZE_def relpath_def abs_comps_def)
  qed
  ultimately show ?thesis by (rule conjI)
qed

text \<open>
  Claim C6, amended. A directory below the walked root whose name is in the exclusion
  set is pruned when the walk meets it: the walk is the same as if the directory were
  absent, whatever it holds, and every record handed to the store comes from a file of
  the tree none of whose enclosing directories, from the root's sub-directories down,
  has an excluded name. The root itself is walked whatever its name: its own files are
  all among the files the walk yields.
\<close>

theorem excluded_directories_pruned:
  "(name \<in> SKIP_DIRS \<longrightarrow>
      os_walk rt (Dir (dsa @ (name, sub) # dsb) fs) = os_walk rt (Dir (dsa @ dsb) fs) \<and>
      walk_and_index H d v s (Dir (dsa @ (name, sub) # dsb) fs) es =
        walk_and_index H d v s (Dir (dsa @ dsb) fs) es) \<and>
   (r \<in> set (indexed_records H d v s t es) \<longrightarrow>
      (\<exists>p n f content. (p, n, f) \<in> set (tree_files t) \<and> read_text f = Some content \<and>
          r = record_of H d (entry_path d p n) content \<and>
          (\<forall>x \<in> set p. x \<notin> SKIP_DIRS))) \<and>
   (\<forall>e \<in> set fs. (rt, e) \<in> set (visited rt (Dir ds fs)))"
proof (intro conjI impI ballI)
  assume n: "name \<in> SKIP_DIRS"
  then show "os_walk rt (Dir (dsa @ (name, sub) # dsb) fs) = os_walk rt (Dir (dsa @ dsb) fs)"
    by (rule os_walk_pruned)
  from n have "os_walk d (Dir (dsa @ (name, sub) # dsb) fs) = os_walk d (Dir (dsa @ dsb) fs)"
    by (rule os_walk_pruned)
  then show "walk_and_index H d v s (Dir (dsa @ (name, sub) # dsb) fs) es =
        walk_and_index H d v s (Dir (dsa @ dsb) fs) es"
    unfolding walk_and_index_def by (simp only:)
next
  assume "r \<in> set (indexed_records H d v s t es)"
  from indexed_record_source[OF this] obtain p n f content where
    s: "(p, n, f) \<in> set (tree_files t)" "list_all (\<lambda>x. x \<notin> SKIP_DIRS) p"
       "read_text f = Some content" "r = record_of H d (entry_path d p n) content"
    by blast
  from s(2) have "\<forall>x \<in> set p. x \<notin> SKIP_DIRS" by (simp add: list_all_iff)
  with s show "\<exists>p n f content. (p, n, f) \<in> set (tree_files t) \<and> read_text f = Some content \<and>
          r = record_of H d (entry_path d p n) content \<and> (\<forall>x \<in> set p. x \<notin> SKIP_DIRS)"
    by blast
next
  fix e assume "e \<in> set fs"
  then show "(rt, e) \<in> set (visited rt (Dir ds fs))"
    by (simp add: visited_def)
qed

theorem excluded_directories_pruned_witness:
  "\<forall>H. ''.git'' \<in> SKIP_DIRS \<and>
       accepted (''/d/.git'', ''config'', \<lparr>getsize = Some 4, read_utf8 = Some ''core''\<rparr>) \<and>
       walk_and_index H ''/d'' True True
           (Dir ([] @ (''.git'', Dir [] [(''config'', \<lparr>getsize = Some 4, read_utf8 = Some ''core''\<rparr>)]) # []) []) [] =
         walk_and_index H ''/d'' True True (Dir ([] @ []) []) [] \<and>
       (H ''sub/b.md'', ''abc'', [(''path'', ''sub/b.md'')]) \<in> set (indexed_records H ''/d'' True True example_tree []) \<and>
       (\<exists>p n f content. (p, n, f) \<in> set (tree_files example_tree) \<and> read_text f = Some content \<and>
          (H ''sub/b.md'', ''abc'', [(''path'', ''sub/b.md'')]) = record_of H ''/d'' (entry_path ''/d'' p n) content \<and>
          (\<forall>x \<in> set p. x \<notin> SKIP_DIRS)) \<and>
       (''/home/u/node_modules'', ''index.js'', \<lparr>getsize = Some 2, read_utf8 = Some ''js''\<rparr>) \<in>
         set (visited ''/home/u/node_modules''
                (Dir [] [(''index.js'', \<lparr>getsize = Some 2, read_utf8 = Some ''js''\<rparr>)]))"
proof
  fix H :: "string \<Rightarrow> string"
  let ?r = "(H ''sub/b.md'', ''abc'', [(''path'', ''sub/b.md'')])"
  have 1: "''.git'' \<in> SKIP_DIRS" by (simp add: SKIP_DIRS_def)
  have 2: "?r \<in> set (indexed_records H ''/d'' True True example_tree [])"
    by (simp add: example_indexed)
  have 3: "accepted (''/d/.git'', ''config'', \<lparr>getsize = Some 4, read_utf8 = Some ''core''\<rparr>)"
    by (simp add: accepted_def should_skip_file_def read_text_def path_join_def splitext_ext_def
        basename_def BINARY_EXTENSIONS_def MAX_FILE_SIZE_def)
  note a = excluded_directories_pruned[where name = "''.git''" and H = H and d = "''/d''" and v = True
      and dsa = "[]" and dsb = "[]" and fs = "[]"
      and sub = "Dir [] [(''config'', \<lparr>getsize = Some 4, read_utf8 = Some ''core''\<rparr>)]"
      and r = ?r and s = True and t = example_tree and es = "[]"]
  note b = excluded_directories_pruned[where rt = "''/home/u/node_modules''" and ds = "[]"
      and fs = "[(''index.js'', \<lparr>getsize = Some 2, read_utf8 = Some ''js''\<rparr>)]"]
  from b have 4: "(''/home/u/node_modules'', ''index.js'', \<lparr>getsize = Some 2, read_utf8 = Some ''js''\<rparr>) \<in>
         set (visited ''/home/u/node_modules''
                (Dir [] [(''index.js'', \<lparr>getsize = Some 2, read_utf8 = Some ''js''\<rparr>)]))"
    by simp
  from a 1 2 3 4
  show "''.git'' \<in> SKIP_DIRS \<and>
       accepted (''/d/.git'', ''config'', \<lparr>getsize = Some 4, read_utf8 = Some ''core''\<rparr>) \<and>
       walk_and_index H ''/d'' True True
           (Dir ([] @ (''.git'', Dir [] [(''config'', \<lparr>getsize = Some 4, read_utf8 = Some ''core''\<rparr>)]) # []) []) [] =
         walk_and_index H ''/d'' True True (Dir ([] @ []) []) [] \<and>
       ?r \<in> set (indexed_records H ''/d'' True True example_tree []) \<and>
       (\<exists>p n f content. (p, n, f) \<in> set (tree_files example_tree) \<and> read_text f = Some content \<and>
          ?r = record_of H ''/d'' (entry_path ''/d'' p n) content \<and>
          (\<forall>x \<in> set p. x \<notin> SKIP_DIRS)) \<and>
       (''/home/u/node_modules'', ''index.js'', \<lparr>getsize = Some 2, read_utf8 = Some ''js''\<rparr>) \<in>
         set (visited ''/home/u/node_modules''
                (Dir [] [(''index.js'', \<lparr>getsize = Some 2, read_utf8 = Some ''js''\<rparr>)]))"
    by blast
qed

section \<open>Batches of fifty\<close>




lemma latin1_visited:
  "visited ''/d'' latin1_name_tree =
     [(''/d'', ''a.txt'', \<lparr>getsize = Some 5, read_utf8 = Some ''alpha''\<rparr>),
      (''/d'', ''caf'' @ [CHR 0xE9] @ ''.txt'', \<lparr>getsize = Some 5, read_utf8 = Some ''crema''\<rparr>),
      (''/d'', ''z.txt'', \<lparr>getsize = Some 4, read_utf8 = Some ''zulu''\<rparr>)]"
  by (simp add: latin1_name_tree_def visited_def)

lemma latin1_accepted:
  "accepted (''/d'', ''a.txt'', \<lparr>getsize = Some 5, read_utf8 = Some ''alpha''\<rparr>)"
  "accepted (''/d'', ''caf'' @ [CHR 0xE9] @ ''.txt'', \<lparr>getsize = Some 5, read_utf8 = Some ''crema''\<rparr>)"
  "accepted (''/d'', ''z.txt'', \<lparr>getsize = Some 4, read_utf8 = Some ''zulu''\<rparr>)"
  by (simp_all add: accepted_def should_skip_file_def read_text_def path_join_def splitext_ext_def
      basename_def lower_char_def BINARY_EXTENSIONS_def MAX_FILE_SIZE_def)

lemma latin1_relpath: "relpath (path_join ''/d'' (''caf'' @ [CHR 0xE9] @ ''.txt'')) ''/d'' = ''caf'' @ [CHR 0xE9] @ ''.txt''"
  by (simp add: path_join_def relpath_def abs_comps_def)

lemma latin1_not_valid: "\<not> valid_utf8 (''caf'' @ [CHR 0xE9] @ ''.txt'')"
  by (simp add: utf8_eval)

lemma latin1_stops:
  "\<not> stops ''/d'' v s (''/d'', ''a.txt'', \<lparr>getsize = Some 5, read_utf8 = Some ''alpha''\<rparr>)"
  "stops ''/d'' v s (''/d'', ''caf'' @ [CHR 0xE9] @ ''.txt'', \<lparr>getsize = Some 5, read_utf8 = Some ''crema''\<rparr>)"
proof -
  show "\<not> stops ''/d'' v s (''/d'', ''a.txt'', \<lparr>getsize = Some 5, read_utf8 = Some ''alpha''\<rparr>)"
    by (rule ascii_goes) (simp_all add: ascii_def)
  have "\<not> encodable ''/d'' (''/d'', ''caf'' @ [CHR 0xE9] @ ''.txt'', \<lparr>getsize = Some 5, read_utf8 = Some ''crema''\<rparr>)"
    unfolding encodable_def fst_conv snd_conv latin1_relpath by (rule latin1_not_valid)
  with latin1_accepted(2)
  show "stops ''/d'' v s (''/d'', ''caf'' @ [CHR 0xE9] @ ''.txt'', \<lparr>getsize = Some 5, read_utf8 = Some ''crema''\<rparr>)"
    by (simp only: stops_def raises_def simp_thms)
qed

lemma latin1_handled:
  "handled ''/d'' v s (visited ''/d'' latin1_name_tree) =
     [(''/d'', ''a.txt'', \<lparr>getsize = Some 5, read_utf8 = Some ''alpha''\<rparr>)]"
  unfolding latin1_visited handled_def using latin1_stops[of v s]
  by (simp only: takeWhile.simps simp_thms if_True if_False)

lemma latin1_aborts: "list_ex (stops ''/d'' v s) (visited ''/d'' latin1_name_tree)"
  unfolding latin1_visited using latin1_stops(2)[of v s] by simp
















section \<open>What verbose mode prints\<close>

lemma tiny_walk_rejected:
  assumes "\<not> accepted (d, n, f)" "\<not> stops d True s (d, n, f)"
  shows "stdout (walk_and_index H d True s (Dir [] [(n, f)]) []) =
           [log_line d (d, n, f), summary_line 0]"
proof -
  let ?st0 = "\<lparr>ids = [], documents = [], metadatas = [], stdout = [],
               strict_stdout = s, aborted = None, coll = get_collection []\<rparr>"
  let ?S = "step H d True ?st0 (d, n, f)"
  have g: "\<not> stops d True (strict_stdout ?st0) (d, n, f)" using assms(2) by simp
  have v: "visited d (Dir [] [(n, f)]) = [(d, n, f)]" by (simp add: visited_def)
  have r: "run_over H d True [(d, n, f)] ?st0 = ?S"
    using g by (simp only: run_over_Cons run_over_Nil if_False)
  from step_goes[OF g, of H] have a: "aborted ?S = None" and o: "stdout ?S = [log_line d (d, n, f)]"
    by simp_all
  from step_rejected[OF assms(1), of H d True ?st0]
  have b: "buffer ?S = buffer ?st0" and c: "coll ?S = get_collection []" by simp_all
  from b have i: "ids ?S = []" by (simp add: buffer_def)
  show ?thesis
    unfolding walk_run v r Let_def using a o c i
    by (simp add: print_summary_line count_def get_collection_def)
qed

lemma tiny_rejected:
  "\<not> accepted (''/d'', ''x.png'', \<lparr>getsize = Some 10, read_utf8 = Some ''0123456789''\<rparr>)"
  "\<not> accepted (''/d'', ''a.txt'', \<lparr>getsize = Some 0, read_utf8 = Some []\<rparr>)"
  "\<not> accepted (''/d'', ''a.txt'', \<lparr>getsize = None, read_utf8 = None\<rparr>)"
  "\<not> accepted (''/d'', ''a.txt (not utf-8)'', \<lparr>getsize = Some 0, read_utf8 = Some []\<rparr>)"
  "\<not> accepted (''/d'', ''a.txt'', \<lparr>getsize = Some 4, read_utf8 = None\<rparr>)"
  by (simp_all add: accepted_def should_skip_file_def read_text_def path_join_def splitext_ext_def
      basename_def lower_char_def BINARY_EXTENSIONS_def MAX_FILE_SIZE_def)

lemma tiny_goes:
  "\<not> stops ''/d'' True s (''/d'', ''x.png'', f)"
  "\<not> stops ''/d'' True s (''/d'', ''a.txt'', f)"
  "\<not> stops ''/d'' True s (''/d'', ''a.txt (not utf-8)'', f)"
  by (rule ascii_goes, simp_all add: ascii_def)+

lemma tiny_log_lines:
  "log_line ''/d'' (''/d'', ''x.png'', \<lparr>getsize = Some 10, read_utf8 = Some ''0123456789''\<rparr>) =
     ''  skip  /d/x.png''"
  "log_line ''/d'' (''/d'', ''a.txt'', \<lparr>getsize = Some 0, read_utf8 = Some []\<rparr>) = ''  skip  /d/a.txt''"
  "log_line ''/d'' (''/d'', ''a.txt'', \<lparr>getsize = None, read_utf8 = None\<rparr>) = ''  skip  /d/a.txt''"
  "log_line ''/d'' (''/d'', ''a.txt (not utf-8)'', \<lparr>getsize = Some 0, read_utf8 = Some []\<rparr>) =
     ''  skip  /d/a.txt (not utf-8)''"
  "log_line ''/d'' (''/d'', ''a.txt'', \<lparr>getsize = Some 4, read_utf8 = None\<rparr>) =
     ''  skip  /d/a.txt (not utf-8)''"
  unfolding log_line_def Let_def
  by (simp_all add: decision_def read_text_def path_join_def splitext_ext_def basename_def
      lower_char_def BINARY_EXTENSIONS_def MAX_FILE_SIZE_def)

lemma latin1_log_line:
  "log_line ''/d'' (''/d'', ''a.txt'', \<lparr>getsize = Some 5, read_utf8 = Some ''alpha''\<rparr>) = ''  index a.txt''"
  unfolding log_line_def Let_def
  by (simp add: decision_def read_text_def path_join_def splitext_ext_def basename_def
      lower_char_def BINARY_EXTENSIONS_def MAX_FILE_SIZE_def relpath_def abs_comps_def)

text \<open>
  Claim C8, as stated, fails: the line printed for a file that \<open>_should_skip_file\<close>
  rejects is \<open>skip\<close> and the path, with no reason. An empty file and a file whose size
  cannot be read give the same output; so do an empty file named
  \<open>a.txt (not utf-8)\<close> and an undecodable file named \<open>a.txt\<close>, which different
  filters reject. And when an exception ends the run nothing more is printed: in the
  directory of \<open>a.txt\<close>, \<open>caf\<close>\<open>E9\<close>\<open>.txt\<close> and \<open>z.txt\<close> the second file passes every
  filter, \<open>_file_id\<close> raises on its name, and the only line printed is that of \<open>a.txt\<close>.
\<close>

theorem verbose_skip_line_has_no_reason:
  "stdout (walk_and_index id ''/d'' True True
      (Dir [] [(''x.png'', \<lparr>getsize = Some 10, read_utf8 = Some ''0123456789''\<rparr>)]) []) =
     [''  skip  /d/x.png'', summary_line 0] \<and>
   stdout (walk_and_index id ''/d'' True True
      (Dir [] [(''a.txt'', \<lparr>getsize = Some 0, read_utf8 = Some []\<rparr>)]) []) =
   stdout (walk_and_index id ''/d'' True True
      (Dir [] [(''a.txt'', \<lparr>getsize = None, read_utf8 = None\<rparr>)]) []) \<and>
   decision ''/d/a.txt'' \<lparr>getsize = Some 0, read_utf8 = Some []\<rparr> = RejectedSize \<and>
   decision ''/d/a.txt'' \<lparr>getsize = None, read_utf8 = None\<rparr> = RejectedStatError \<and>
   stdout (walk_and_index id ''/d'' True True
      (Dir [] [(''a.txt (not utf-8)'', \<lparr>getsize = Some 0, read_utf8 = Some []\<rparr>)]) []) =
   stdout (walk_and_index id ''/d'' True True
      (Dir [] [(''a.txt'', \<lparr>getsize = Some 4, read_utf8 = None\<rparr>)]) []) \<and>
   decision ''/d/a.txt (not utf-8)'' \<lparr>getsize = Some 0, read_utf8 = Some []\<rparr> = RejectedSize \<and>
   decision ''/d/a.txt'' \<lparr>getsize = Some 4, read_utf8 = None\<rparr> = RejectedNotUtf8 \<and>
   stdout (walk_and_index id ''/d'' True True latin1_name_tree []) = [''  index a.txt''] \<and>
   decision (path_join ''/d'' (''caf'' @ [CHR 0xE9] @ ''.txt''))
     \<lparr>getsize = Some 5, read_utf8 = Some ''crema''\<rparr> = Indexed"
proof -
  have 1: "stdout (walk_and_index id ''/d'' True True
      (Dir [] [(''x.png'', \<lparr>getsize = Some 10, read_utf8 = Some ''0123456789''\<rparr>)]) []) =
     [''  skip  /d/x.png'', summary_line 0]"
    unfolding tiny_walk_rejected[OF tiny_rejected(1) tiny_goes(1)] tiny_log_lines ..
  have 2: "stdout (walk_and_index id ''/d'' True True
      (Dir [] [(''a.txt'', \<lparr>getsize = Some 0, read_utf8 = Some []\<rparr>)]) []) =
   stdout (walk_and_index id ''/d'' True True
      (Dir [] [(''a.txt'', \<lparr>getsize = None, read_utf8 = None\<rparr>)]) [])"
    unfolding tiny_walk_rejected[OF tiny_rejected(2) tiny_goes(2)]
      tiny_walk_rejected[OF tiny_rejected(3) tiny_goes(2)] tiny_log_lines ..
  have 3: "stdout (walk_and_index id ''/d'' True True
      (Dir [] [(''a.txt (not utf-8)'', \<lparr>getsize = Some 0, read_utf8 = Some []\<rparr>)]) []) =
   stdout (walk_and_index id ''/d'' True True
      (Dir [] [(''a.txt'', \<lparr>getsize = Some 4, read_utf8 = None\<rparr>)]) [])"
    unfolding tiny_walk_rejected[OF tiny_rejected(4) tiny_goes(3)]
      tiny_walk_rejected[OF tiny_rejected(5) tiny_goes(2)] tiny_log_lines ..
  have 4: "decision ''/d/a.txt'' \<lparr>getsize = Some 0, read_utf8 = Some []\<rparr> = RejectedSize"
    "decision ''/d/a.txt'' \<lparr>getsize = None, read_utf8 = None\<rparr> = RejectedStatError"
    "decision ''/d/a.txt (not utf-8)'' \<lparr>getsize = Some 0, read_utf8 = Some []\<rparr> = RejectedSize"
    "decision ''/d/a.txt'' \<lparr>getsize = Some 4, read_utf8 = None\<rparr> = RejectedNotUtf8"
    "decision (path_join ''/d'' (''caf'' @ [CHR 0xE9] @ ''.txt''))
       \<lparr>getsize = Some 5, read_utf8 = Some ''crema''\<rparr> = Indexed"
    by (simp_all add: decision_def read_text_def path_join_def splitext_ext_def basename_def
        lower_char_def BINARY_EXTENSIONS_def MAX_FILE_SIZE_def)
  have 5: "stdout (walk_and_index id ''/d'' True True latin1_name_tree []) = [''  index a.txt'']"
    unfolding walk_stdout latin1_handled using latin1_aborts[of True True]
    by (simp add: latin1_log_line)
  from 1 2 3 4 5 show ?thesis by (intro conjI)
qed

text \<open>
  Claim C8, amended. In verbose mode a run that no exception ends prints one line per
  visited file, in the order of the walk, before the closing summary: \<open>skip\<close> and the
  file path for a file rejected by the extension or the size test (or whose size cannot
  be read), without saying which; \<open>skip\<close>, the path and \<open>(not utf-8)\<close> for a file that
  cannot be read as UTF-8; \<open>index\<close> and the relative path for an indexed file.
\<close>

theorem verbose_log_lines:
  "(aborted (walk_and_index H d True s t es) = None \<longrightarrow>
      stdout (walk_and_index H d True s t es) =
        map (log_line d) (visited d t) @
        [summary_line (count (coll (walk_and_index H d True s t es)))]) \<and>
   (decision (path_join rt n) f = RejectedExtension \<or> decision (path_join rt n) f = RejectedStatError \<or>
    decision (path_join rt n) f = RejectedSize \<longrightarrow>
      log_line d (rt, n, f) = ''  skip  '' @ path_join rt n) \<and>
   (decision (path_join rt n) f = RejectedNotUtf8 \<longrightarrow>
      log_line d (rt, n, f) = ''  skip  '' @ path_join rt n @ '' (not utf-8)'') \<and>
   (decision (path_join rt n) f = Indexed \<longrightarrow>
      log_line d (rt, n, f) = ''  index '' @ relpath (path_join rt n) d)"
proof -
  have "stdout (walk_and_index H d True s t es) =
        map (log_line d) (visited d t) @
        [summary_line (count (coll (walk_and_index H d True s t es)))]"
    if a: "aborted (walk_and_index H d True s t es) = None"
  proof -
    from a have n: "\<not> list_ex (stops d True s) (visited d t)"
      by (simp add: walk_aborted split: if_splits)
    show ?thesis
      by (subst walk_stdout) (simp add: n walk_completed[OF a])
  qed
  then show ?thesis by (auto simp: log_line_def)
qed

lemma example_log:
  "map (log_line ''/d'') (visited ''/d'' example_tree) =
     [''  index a.txt'', ''  skip  /d/x.PNG'', ''  skip  /d/empty.txt'', ''  skip  /d/big.txt'',
      ''  index limit.txt'', ''  skip  /d/gone.txt'', ''  skip  /d/latin1.txt (not utf-8)'',
      ''  index sub/b.md'']"
  unfolding example_visited list.map
  unfolding log_line_def Let_def
  by (simp add: decision_def read_text_def path_join_def splitext_ext_def basename_def
      lower_char_def BINARY_EXTENSIONS_def MAX_FILE_SIZE_def relpath_def abs_comps_def)

theorem verbose_log_lines_witness:
  "\<forall>H. aborted (walk_and_index H ''/d'' True True example_tree []) = None \<and>
     butlast (stdout (walk_and_index H ''/d'' True True example_tree [])) =
     [''  index a.txt'', ''  skip  /d/x.PNG'', ''  skip  /d/empty.txt'', ''  skip  /d/big.txt'',
      ''  index limit.txt'', ''  skip  /d/gone.txt'', ''  skip  /d/latin1.txt (not utf-8)'',
      ''  index sub/b.md''] \<and>
     decision (path_join ''/d'' ''gone.txt'') \<lparr>getsize = None, read_utf8 = None\<rparr> = RejectedStatError \<and>
     log_line ''/d'' (''/d'', ''gone.txt'', \<lparr>getsize = None, read_utf8 = None\<rparr>) = ''  skip  /d/gone.txt'' \<and>
     decision (path_join ''/d'' ''latin1.txt'') \<lparr>getsize = Some 4, read_utf8 = None\<rparr> = RejectedNotUtf8 \<and>
     log_line ''/d'' (''/d'', ''latin1.txt'', \<lparr>getsize = Some 4, read_utf8 = None\<rparr>) =
       ''  skip  /d/latin1.txt (not utf-8)'' \<and>
     decision (path_join ''/d/sub'' ''b.md'') \<lparr>getsize = Some 3, read_utf8 = Some ''abc''\<rparr> = Indexed \<and>
     log_line ''/d'' (''/d/sub'', ''b.md'', \<lparr>getsize = Some 3, read_utf8 = Some ''abc''\<rparr>) =
       ''  index sub/b.md''"
proof
  fix H :: "string \<Rightarrow> string"
  have 0: "aborted (walk_and_index H ''/d'' True True example_tree []) = None"
    unfolding walk_aborted using example_goes by simp
  have 1: "decision (path_join ''/d'' ''gone.txt'') \<lparr>getsize = None, read_utf8 = None\<rparr> = RejectedStatError"
    "decision (path_join ''/d'' ''latin1.txt'') \<lparr>getsize = Some 4, read_utf8 = None\<rparr> = RejectedNotUtf8"
    "decision (path_join ''/d/sub'' ''b.md'') \<lparr>getsize = Some 3, read_utf8 = Some ''abc''\<rparr> = Indexed"
    by (simp_all add: decision_def read_text_def path_join_def splitext_ext_def basename_def
      lower_char_def BINARY_EXTENSIONS_def MAX_FILE_SIZE_def)
  have 2: "path_join ''/d'' ''gone.txt'' = ''/d/gone.txt''"
    "path_join ''/d'' ''latin1.txt'' = ''/d/latin1.txt''"
    "relpath (path_join ''/d/sub'' ''b.md'') ''/d'' = ''sub/b.md''"
    by (simp_all add: path_join_def relpath_def abs_comps_def)
  note a = verbose_log_lines[where H = H and d = "''/d''" and s = True and t = example_tree
      and es = "[]" and rt = "''/d''" and n = "''gone.txt''"
      and f = "\<lparr>getsize = None, read_utf8 = None\<rparr>"]
  note b = verbose_log_lines[where d = "''/d''" and rt = "''/d''" and n = "''latin1.txt''"
      and f = "\<lparr>getsize = Some 4, read_utf8 = None\<rparr>"]
  note c = verbose_log_lines[where d = "''/d''" and rt = "''/d/sub''" and n = "''b.md''"
      and f = "\<lparr>getsize = Some 3, read_utf8 = Some ''abc''\<rparr>"]
  from a 0 have o: "butlast (stdout (walk_and_index H ''/d'' True True example_tree [])) =
     [''  index a.txt'', ''  skip  /d/x.PNG'', ''  skip  /d/empty.txt'', ''  skip  /d/big.txt'',
      ''  index limit.txt'', ''  skip  /d/gone.txt'', ''  skip  /d/latin1.txt (not utf-8)'',
      ''  index sub/b.md'']"
    by (simp add: example_log)
  from a 1(1) have l1: "log_line ''/d'' (''/d'', ''gone.txt'', \<lparr>getsize = None, read_utf8 = None\<rparr>) =
      ''  skip  /d/gone.txt''"
    by (simp add: 2)
  from b 1(2) have l2: "log_line ''/d'' (''/d'', ''latin1.txt'', \<lparr>getsize = Some 4, read_utf8 = None\<rparr>) =
      ''  skip  /d/latin1.txt (not utf-8)''"
    by (simp add: 2)
  from c 1(3) have l3: "log_line ''/d'' (''/d/sub'', ''b.md'', \<lparr>getsize = Some 3, read_utf8 = Some ''abc''\<rparr>) =
      ''  index sub/b.md''"
    by (simp add: 2)
  from 0 o 1 l1 l2 l3
  show "aborted (walk_and_index H ''/d'' True True example_tree []) = None \<and>
     butlast (stdout (walk_and_index H ''/d'' True True example_tree [])) =
     [''  index a.txt'', ''  skip  /d/x.PNG'', ''  skip  /d/empty.txt'', ''  skip  /d/big.txt'',
      ''  index limit.txt'', ''  skip  /d/gone.txt'', ''  skip  /d/latin1.txt (not utf-8)'',
      ''  index sub/b.md''] \<and>
     decision (path_join ''/d'' ''gone.txt'') \<lparr>getsize = None, read_utf8 = None\<rparr> = RejectedStatError \<and>
     log_line ''/d'' (''/d'', ''gone.txt'', \<lparr>getsize = None, read_utf8 = None\<rparr>) = ''  skip  /d/gone.txt'' \<and>
     decision (path_join ''/d'' ''latin1.txt'') \<lparr>getsize = Some 4, read_utf8 = None\<rparr> = RejectedNotUtf8 \<and>
     log_line ''/d'' (''/d'', ''latin1.txt'', \<lparr>getsize = Some 4, read_utf8 = None\<rparr>) =
       ''  skip  /d/latin1.txt (not utf-8)'' \<and>
     decision (path_join ''/d/sub'' ''b.md'') \<lparr>getsize = Some 3, read_utf8 = Some ''abc''\<rparr> = Indexed \<and>
     log_line ''/d'' (''/d/sub'', ''b.md'', \<lparr>getsize = Some 3, read_utf8 = Some ''abc''\<rparr>) =
       ''  index sub/b.md''"
    by (intro conjI)
qed

section \<open>Querying and dispatch\<close>

lemma print_results_queried [simp]: "queried (print_results xs r) = queried r"
  by (induction xs r rule: print_results.induct) (auto simp: Let_def split: option.splits)

lemma print_results_out:
  "map (\<lambda>m. map_of m ''path'') metas = map Some ps \<Longrightarrow>
   out (print_results (zip metas dists) r) =
     out r @ map (\<lambda>(p, dist). fmt_plus_4f (float_sub 1 dist) @ ''  '' @ p) (zip ps dists)"
proof (induction metas arbitrary: ps dists r)
  case Nil
  then show ?case by simp
next
  case (Cons m metas)
  then obtain p ps' where ps: "ps = p # ps'" by (cases ps) auto
  with Cons.prems have m: "map_of m ''path'' = Some p"
    and rest: "map (\<lambda>m. map_of m ''path'') metas = map Some ps'" by simp_all
  show ?case
  proof (cases dists)
    case Nil
    then show ?thesis by simp
  next
    case (Cons x xs)
    with Cons.IH[OF rest, of xs] m ps show ?thesis by (simp add: Let_def)
  qed
qed

text \<open>
  Claim C3. A query on a collection whose record count is zero writes the message that
  asks to run the indexing first to standard error and exits with code 1, and the
  similarity search is not called; on any other count the search is called, once, with
  the query text and the result limit.
\<close>

theorem query_empty_collection_rejected:
  "(store_count c = 0 \<longrightarrow>
      err (query_collection c d q n) = [''Collection is empty. Run --index first.''] \<and>
      out (query_collection c d q n) = [] \<and>
      raised (query_collection c d q n) = Some (SystemExit 1) \<and>
      exit_code (query_collection c d q n) = 1 \<and>
      queried (query_collection c d q n) = []) \<and>
   (store_count c \<noteq> 0 \<longrightarrow> queried (query_collection c d q n) = [([q], n)])"
  by (auto simp: query_collection_def exit_code_def Let_def split: list.splits)

theorem query_empty_collection_rejected_witness:
  "exit_code (query_collection \<lparr>store_count = 0, store_query = (\<lambda>qs k. \<lparr>res_metadatas = [[]], res_distances = [[]]\<rparr>)\<rparr> ''/d'' ''cats'' 5) = 1 \<and>
   queried (query_collection \<lparr>store_count = 0, store_query = (\<lambda>qs k. \<lparr>res_metadatas = [[]], res_distances = [[]]\<rparr>)\<rparr> ''/d'' ''cats'' 5) = [] \<and>
   queried (query_collection \<lparr>store_count = 3, store_query = (\<lambda>qs k. \<lparr>res_metadatas = [[]], res_distances = [[]]\<rparr>)\<rparr> ''/d'' ''cats'' 5) = [([''cats''], 5)]"
  using query_empty_collection_rejected
    [of "\<lparr>store_count = 0, store_query = (\<lambda>qs k. \<lparr>res_metadatas = [[]], res_distances = [[]]\<rparr>)\<rparr>" "''/d''" "''cats''" 5]
    query_empty_collection_rejected
    [of "\<lparr>store_count = 3, store_query = (\<lambda>qs k. \<lparr>res_metadatas = [[]], res_distances = [[]]\<rparr>)\<rparr>" "''/d''" "''cats''" 5]
  by simp

text \<open>
  Claim C10. With \<open>--query\<close> and an empty query string (and a valid directory) \<open>main\<close>
  takes neither branch: nothing is indexed, the store is not queried, nothing is printed,
  and the process ends normally, without the empty-collection error.
\<close>

theorem empty_query_string_does_nothing:
  "env_isdir e \<Longrightarrow> \<not> arg_index a \<Longrightarrow> arg_query a = Some [] \<Longrightarrow>
   main H e a = \<lparr>out = [], err = [], raised = None, upserted = [], queried = []\<rparr> \<and>
   exit_code (main H e a) = 0"
  by (simp add: main_def exit_code_def Let_def)

theorem empty_query_string_does_nothing_witness:
  "\<forall>H. main H \<lparr>env_isdir = True, env_stdout_strict = True, env_tree = Dir [] [], env_stored = [],
               env_store = \<lparr>store_count = 0, store_query = (\<lambda>qs k. \<lparr>res_metadatas = [], res_distances = []\<rparr>)\<rparr>\<rparr>
          \<lparr>arg_directory = ''/d'', arg_index = False, arg_query = Some '''', arg_num_results = 5, arg_verbose = False\<rparr>
        = \<lparr>out = [], err = [], raised = None, upserted = [], queried = []\<rparr>"
proof
  fix H
  show "main H \<lparr>env_isdir = True, env_stdout_strict = True, env_tree = Dir [] [], env_stored = [],
               env_store = \<lparr>store_count = 0, store_query = (\<lambda>qs k. \<lparr>res_metadatas = [], res_distances = []\<rparr>)\<rparr>\<rparr>
          \<lparr>arg_directory = ''/d'', arg_index = False, arg_query = Some '''', arg_num_results = 5, arg_verbose = False\<rparr>
        = \<lparr>out = [], err = [], raised = None, upserted = [], queried = []\<rparr>"
    using empty_query_string_does_nothing
      [of "\<lparr>env_isdir = True, env_stdout_strict = True, env_tree = Dir [] [], env_stored = [],
               env_store = \<lparr>store_count = 0, store_query = (\<lambda>qs k. \<lparr>res_metadatas = [], res_distances = []\<rparr>)\<rparr>\<rparr>"
          "\<lparr>arg_directory = ''/d'', arg_index = False, arg_query = Some '''', arg_num_results = 5, arg_verbose = False\<rparr>" H]
    by simp
qed

lemma print_results_raised:
  "map (\<lambda>m. map_of m ''path'') metas = map Some ps \<Longrightarrow>
   raised (print_results (zip metas dists) r) = raised r"
proof (induction metas arbitrary: ps dists r)
  case Nil
  then show ?case by simp
next
  case (Cons m metas)
  then obtain p ps' where ps: "ps = p # ps'" by (cases ps) auto
  with Cons.prems have m: "map_of m ''path'' = Some p"
    and rest: "map (\<lambda>m. map_of m ''path'') metas = map Some ps'" by simp_all
  show ?case
  proof (cases dists)
    case Nil
    then show ?thesis by simp
  next
    case (Cons x xs)
    with Cons.IH[OF rest, of xs] m ps show ?thesis by (simp add: Let_def)
  qed
qed

lemma fmt_plus_4f_shape:
  "\<exists>k fr. fmt_plus_4f x = (if x < 0 then ''-'' else ''+'') @ str_nat k @ ''.'' @ fr \<and>
      length fr = 4 \<and> set fr \<subseteq> set ''0123456789''"
proof -
  define n where "n = nat (round_half_even (\<bar>x\<bar> * 10000))"
  define D where "D = set ''0123456789''"
  have dg: "digit k \<in> D" for k unfolding D_def by (rule digit_in)
  have "set (frac4 (n mod 10000)) \<subseteq> D"
    by (simp add: frac4_def dg)
  then have "set (frac4 (n mod 10000)) \<subseteq> set ''0123456789''"
    unfolding D_def .
  moreover have "length (frac4 (n mod 10000)) = 4" by (simp add: frac4_def)
  moreover have "fmt_plus_4f x = (if x < 0 then ''-'' else ''+'') @ str_nat (n div 10000) @ ''.'' @ frac4 (n mod 10000)"
    by (simp add: fmt_plus_4f_def n_def Let_def)
  ultimately show ?thesis by blast
qed

lemma bitlen_0: "bitlen 0 = 0"
  by (simp add: bitlen.simps)

lemma bitlen_Suc_0: "bitlen (Suc 0) = Suc 0"
  by (simp add: bitlen.simps)

lemma bitlen_numeral: "bitlen (numeral k) = Suc (bitlen (numeral k div 2))"
  by (subst bitlen.simps) simp

lemma floor_rat_numerals: "\<lfloor>(numeral a :: rat) / numeral b\<rfloor> = numeral a div numeral b"
  using floor_divide_of_int_eq [where ?'a = rat, of "numeral a" "numeral b"] by simp

lemma floor_rat_neg_numerals:
  "\<lfloor>- ((numeral a :: rat) / numeral b)\<rfloor> = (- numeral a) div numeral b"
  using floor_divide_of_int_eq [where ?'a = rat, of "- numeral a" "numeral b"] by simp

lemma ceiling_rat_numerals:
  "\<lceil>(numeral a :: rat) / numeral b\<rceil> = - ((- numeral a) div numeral b)"
  by (simp add: ceiling_def floor_rat_neg_numerals)

lemmas float_eval =
  float_sub_def float_round_def floor_log2_def pow2_def round_half_even_def Let_def
  bitlen_0 bitlen_Suc_0 bitlen_numeral
  floor_rat_numerals floor_rat_neg_numerals ceiling_rat_numerals

lemma float_round_example: "float_round (2 / 10) = 3602879701896397 / 18014398509481984"
  by (simp add: float_eval)

lemma float_sub_example:
  "float_sub 1 (3602879701896397 / 18014398509481984) = 3602879701896397 / 4503599627370496"
  by (simp add: float_eval)

lemma fmt_example: "fmt_plus_4f (float_sub 1 (float_round (2 / 10))) = ''+0.8000''"
  unfolding float_round_example float_sub_example
  by (simp add: fmt_plus_4f_def round_half_even_def frac4_def digit_def str_nat.simps
      floor_rat_numerals)

text \<open>
  Claim C7. When the store answers with a list of results, each result whose metadata has
  a path is printed on a line of its own, in the order returned: the similarity score,
  which is the float difference of 1 and the distance, with its sign and exactly four
  decimals, two spaces, and the path. The float nearest to 0.2 is
  \<open>3602879701896397 / 2 ^ 54\<close>, and a result at that distance is rendered with the score
  \<open>+0.8000\<close>.
\<close>

theorem query_results_rendering:
  assumes "store_count c \<noteq> 0"
    and "store_query c [q] n = \<lparr>res_metadatas = metas # ms, res_distances = dists # ds\<rparr>"
    and "map (\<lambda>m. map_of m ''path'') metas = map Some ps"
  shows "out (query_collection c d q n) =
           map (\<lambda>(p, dist). fmt_plus_4f (float_sub 1 dist) @ ''  '' @ p) (zip ps dists) \<and>
         raised (query_collection c d q n) = None \<and>
         (\<forall>x. float_sub 1 x = float_round (1 - x)) \<and>
         (\<forall>x. \<exists>k fr. fmt_plus_4f x = (if x < 0 then ''-'' else ''+'') @ str_nat k @ ''.'' @ fr \<and>
                  length fr = 4 \<and> set fr \<subseteq> set ''0123456789'') \<and>
         float_round (2 / 10) = 3602879701896397 / 2 ^ 54 \<and>
         fmt_plus_4f (float_sub 1 (float_round (2 / 10))) = ''+0.8000''"
proof -
  have "(2::rat) ^ 54 = 18014398509481984" by simp
  then have "float_round (2 / 10) = 3602879701896397 / 2 ^ 54"
    by (simp only: float_round_example)
  with assms fmt_plus_4f_shape fmt_example show ?thesis
    by (simp add: query_collection_def Let_def print_results_out print_results_raised float_sub_def)
qed

theorem query_results_rendering_witness:
  "out (query_collection example_store ''/d'' ''cats'' 5) = [''+0.8000  a.txt'', ''-0.2500  sub/b.md'']"
proof -
  have 1: "store_count example_store \<noteq> 0" by (simp add: example_store_def)
  have 2: "store_query example_store [''cats''] 5 =
     \<lparr>res_metadatas = [[(''path'', ''a.txt'')], [(''path'', ''sub/b.md'')]] # [],
      res_distances = [float_round (2 / 10), 5 / 4] # []\<rparr>" by (simp add: example_store_def)
  have 3: "map (\<lambda>m. map_of m ''path'') [[(''path'', ''a.txt'')], [(''path'', ''sub/b.md'')]] =
     map Some [''a.txt'', ''sub/b.md'']" by simp
  have "float_sub 1 (5 / 4) = - 1 / 4"
    by (simp add: float_eval)
  then have 4: "fmt_plus_4f (float_sub 1 (5 / 4)) = ''-0.2500''"
    by (simp add: fmt_plus_4f_def round_half_even_def frac4_def digit_def str_nat.simps)
  note t = query_results_rendering[OF 1 2 3, of "''/d''"]
  from t have o: "out (query_collection example_store ''/d'' ''cats'' 5) =
      map (\<lambda>(p, dist). fmt_plus_4f (float_sub 1 dist) @ ''  '' @ p)
        (zip [''a.txt'', ''sub/b.md''] [float_round (2 / 10), 5 / 4])"
    by blast
  from t have e: "fmt_plus_4f (float_sub 1 (float_round (2 / 10))) = ''+0.8000''"
    by blast
  have m: "map (\<lambda>(p, dist). F p dist) (zip [''a.txt'', ''sub/b.md''] [x, y]) =
      [F ''a.txt'' x, F ''sub/b.md'' y]" for F :: "string \<Rightarrow> rat \<Rightarrow> string" and x y
    by simp
  show ?thesis unfolding o m e 4 by simp
qed

end
